theory Spec2Isabelle
  imports Main "HOL-Library.AList"
begin

section \<open>Values, errors and dictionaries\<close>

text \<open>
  Objects of \<^verbatim>\<open>prefect/core/task.py\<close> live in a store and are named by their
  address. A \<^verbatim>\<open>TaskResult\<close> has the two fields \<^verbatim>\<open>task\<close> and \<^verbatim>\<open>flow\<close> and is never
  mutated by the module, so it is carried by value, with \<open>tr_id\<close> standing for the
  identity of the Python object.
\<close>

type_synonym ref = nat

record TaskResult =
  tr_id :: nat
  tr_task :: ref
  tr_flow :: ref

datatype pyval =
    PNone
  | PBool bool
  | PInt int
  | PStr string
  | PTuple "pyval list"
  | PList "pyval list"
  | PDict "(string \<times> pyval) list"
  | PClass string
  | PTask ref
  | PTaskResult TaskResult

text \<open>
  \<open>PClass\<close> is a class or another object of the typing module, named by its name, as
  annotations are. \<^verbatim>\<open>hash()\<close> raises on a list and on a dictionary, and on a tuple that
  holds one.
\<close>

fun hashable :: "pyval \<Rightarrow> bool" where
  "hashable (PTuple vs) = list_all hashable vs"
| "hashable (PList vs) = False"
| "hashable (PDict d) = False"
| "hashable v = True"

text \<open>
  The exceptions the module raises or lets through: \<^verbatim>\<open>TypeError\<close> from
  \<^verbatim>\<open>inspect.Signature.bind\<close> (the binding error), \<^verbatim>\<open>AttributeError\<close> from the
  \<^verbatim>\<open>Parameter\<close> properties (the identity error), the signal \<^verbatim>\<open>prefect.signals.FAIL\<close>,
  and \<^verbatim>\<open>ValueError\<close> for what the flow rejects.
\<close>

datatype error =
    TypeError string
  | AttributeError string
  | FAIL string
  | ValueError string


text \<open>
  A Python \<^verbatim>\<open>dict\<close> keeps insertion order: \<open>d[k] = v\<close> overwrites in place or appends
  (\<^const>\<open>AList.update\<close>), \<open>d.update(e)\<close> stores the items of \<open>e\<close> in order.
\<close>

definition keys :: "('k \<times> 'v) list \<Rightarrow> 'k set" where
  "keys d = fst ` set d"

definition dict_update :: "('k \<times> 'v) list \<Rightarrow> ('k \<times> 'v) list \<Rightarrow> ('k \<times> 'v) list" where
  "dict_update d e = fold (\<lambda>(k, v) acc. AList.update k v acc) e d"

section \<open>Signatures and \<^verbatim>\<open>inspect.Signature.bind\<close>\<close>

text \<open>
  \<^verbatim>\<open>inspect.signature(self.run)\<close> is the parameter list of the work function without
  \<^verbatim>\<open>self\<close>. The kinds are those a \<^verbatim>\<open>def\<close> can declare in the Python of this
  repository (positional-only parameters have no syntax before Python 3.8, and the
  branches of \<^verbatim>\<open>bind\<close> for them are left out). \<open>p_default = None\<close> is
  \<^verbatim>\<open>param.default is _empty\<close>, and \<open>p_annotation = None\<close> is a parameter without
  annotation.
\<close>

datatype kind = POSITIONAL_OR_KEYWORD | VAR_POSITIONAL | KEYWORD_ONLY | VAR_KEYWORD

record param =
  p_name :: string
  p_kind :: kind
  p_default :: "pyval option"
  p_annotation :: "pyval option"

definition repr :: "string \<Rightarrow> string" where
  "repr s = [CHR 0x27] @ s @ [CHR 0x27]"

text \<open>
  \<^verbatim>\<open>Signature._bind\<close> of the standard library, \<^verbatim>\<open>partial=False\<close>. Its first loop walks
  the positional values and the parameters together; \<open>bind_positional\<close> returns the
  arguments bound so far and the parameters the second loop has still to see
  (\<^verbatim>\<open>itertools.chain(parameters_ex, parameters)\<close>).
\<close>

fun bind_positional ::
  "param list \<Rightarrow> pyval list \<Rightarrow> (string \<times> pyval) list \<Rightarrow> (string \<times> pyval) list
     \<Rightarrow> error + ((string \<times> pyval) list \<times> param list)" where
  "bind_positional [] [] kwargs arguments = Inr (arguments, [])"
| "bind_positional (param # parameters) [] kwargs arguments =
     (if p_kind param = VAR_POSITIONAL then Inr (arguments, parameters)
      else if p_name param \<in> keys kwargs then Inr (arguments, param # parameters)
      else if p_kind param = VAR_KEYWORD \<or> p_default param \<noteq> None
        then Inr (arguments, param # parameters)
      else Inl (TypeError (''missing a required argument: '' @ repr (p_name param))))"
| "bind_positional [] (arg_val # arg_vals) kwargs arguments =
     Inl (TypeError ''too many positional arguments'')"
| "bind_positional (param # parameters) (arg_val # arg_vals) kwargs arguments =
     (if p_kind param = VAR_KEYWORD \<or> p_kind param = KEYWORD_ONLY
        then Inl (TypeError ''too many positional arguments'')
      else if p_kind param = VAR_POSITIONAL
        then Inr (AList.update (p_name param) (PTuple (arg_val # arg_vals)) arguments, parameters)
      else if p_name param \<in> keys kwargs
        then Inl (TypeError (''multiple values for argument '' @ repr (p_name param)))
      else bind_positional parameters arg_vals kwargs
             (AList.update (p_name param) arg_val arguments))"

text \<open>
  The second loop pops the keyword of every remaining named parameter and remembers
  the \<^verbatim>\<open>**kwargs\<close>-like parameter.
\<close>

fun bind_keywords ::
  "param list \<Rightarrow> (string \<times> pyval) list \<Rightarrow> (string \<times> pyval) list \<Rightarrow> param option
     \<Rightarrow> error + ((string \<times> pyval) list \<times> (string \<times> pyval) list \<times> param option)" where
  "bind_keywords [] kwargs arguments kwargs_param = Inr (arguments, kwargs, kwargs_param)"
| "bind_keywords (param # parameters) kwargs arguments kwargs_param =
     (if p_kind param = VAR_KEYWORD then bind_keywords parameters kwargs arguments (Some param)
      else if p_kind param = VAR_POSITIONAL
        then bind_keywords parameters kwargs arguments kwargs_param
      else (case map_of kwargs (p_name param) of
              None \<Rightarrow>
                if p_default param = None
                  then Inl (TypeError (''missing a required argument: '' @ repr (p_name param)))
                else bind_keywords parameters kwargs arguments kwargs_param
            | Some arg_val \<Rightarrow>
                bind_keywords parameters (AList.delete (p_name param) kwargs)
                  (AList.update (p_name param) arg_val arguments) kwargs_param))"

text \<open>
  After the second loop, what is left of \<^verbatim>\<open>kwargs\<close> goes to the \<^verbatim>\<open>**kwargs\<close>-like
  parameter, or is an error.
\<close>

definition bind_rest ::
  "param list \<Rightarrow> (string \<times> pyval) list \<Rightarrow> (string \<times> pyval) list \<Rightarrow> error + (string \<times> pyval) list" where
  "bind_rest rest kwargs arguments =
     (case bind_keywords rest kwargs arguments None of
        Inl e \<Rightarrow> Inl e
      | Inr (arguments, kwargs, kwargs_param) \<Rightarrow>
          if kwargs \<noteq> [] then
            (case kwargs_param of
               Some p \<Rightarrow> Inr (AList.update (p_name p) (PDict kwargs) arguments)
             | None \<Rightarrow>
                 Inl (TypeError (''got an unexpected keyword argument ''
                                   @ repr (fst (hd kwargs)))))
          else Inr arguments)"

definition bind ::
  "param list \<Rightarrow> pyval list \<Rightarrow> (string \<times> pyval) list \<Rightarrow> error + (string \<times> pyval) list" where
  "bind sig args kwargs =
     (case bind_positional sig args kwargs [] of
        Inl e \<Rightarrow> Inl e
      | Inr (arguments, rest) \<Rightarrow> bind_rest rest kwargs arguments)"

section \<open>The bound keyword mapping of \<^verbatim>\<open>Task.__call__\<close>\<close>

text \<open>
  The keys of \<^verbatim>\<open>callargs\<close> are the parameter names, which are strings. The key handed
  to \<^verbatim>\<open>callargs.pop\<close> at line 119 is \<^verbatim>\<open>var_kw_arg\<close> itself: an
  \<^verbatim>\<open>inspect.Parameter\<close> object, or \<^verbatim>\<open>None\<close> when the signature has no \<^verbatim>\<open>**\<close> parameter.
  A string never equals either of them, so the type of keys has the three sorts.
\<close>

datatype dkey = KStr string | KParam param | KNone

text \<open>
  \<^verbatim>\<open>hash()\<close> of a key. \<^verbatim>\<open>Parameter.__hash__\<close> hashes the tuple of the name, the
  kind, the annotation and the default, and so raises when the annotation or the default
  is unhashable.
\<close>

fun hashable_key :: "dkey \<Rightarrow> bool" where
  "hashable_key (KStr s) = True"
| "hashable_key KNone = True"
| "hashable_key (KParam p) =
     ((case p_annotation p of None \<Rightarrow> True | Some a \<Rightarrow> hashable a)
      \<and> (case p_default p of None \<Rightarrow> True | Some v \<Rightarrow> hashable v))"

text \<open>
  \<open>d.pop(k, default)\<close>: an empty dictionary gives the default at once; otherwise the key
  is hashed, which can raise, and then looked up and removed.
\<close>

definition dict_pop :: "(dkey \<times> 'v) list \<Rightarrow> dkey \<Rightarrow> 'v \<Rightarrow> error + ('v \<times> (dkey \<times> 'v) list)" where
  "dict_pop d k dflt =
     (if d = [] then Inr (dflt, d)
      else if \<not> hashable_key k then Inl (TypeError ''unhashable type'')
      else (case map_of d k of
              None \<Rightarrow> Inr (dflt, d)
            | Some v \<Rightarrow> Inr (v, AList.delete k d)))"

text \<open>
  \<^verbatim>\<open>d.update(x)\<close> for the popped value \<open>x\<close>: a dictionary is merged in, anything
  else is not a mapping and raises.
\<close>

definition update_from :: "(dkey \<times> pyval) list \<Rightarrow> pyval \<Rightarrow> error + (dkey \<times> pyval) list" where
  "update_from d x =
     (case x of
        PDict e \<Rightarrow> Inr (dict_update d (map (\<lambda>(k, v). (KStr k, v)) e))
      | _ \<Rightarrow> Inl (TypeError ''object is not iterable''))"

text \<open>Lines 111 to 119 of \<^verbatim>\<open>Task.__call__\<close>.\<close>

definition Task_callargs ::
  "param list \<Rightarrow> pyval list \<Rightarrow> (string \<times> pyval) list \<Rightarrow> error + (dkey \<times> pyval) list" where
  "Task_callargs sig args kwargs =
     (case bind sig args kwargs of
        Inl e \<Rightarrow> Inl e
      | Inr arguments \<Rightarrow>
          (let callargs = map (\<lambda>(k, v). (KStr k, v)) arguments;
               var_kw_arg = find (\<lambda>p. p_kind p = VAR_KEYWORD) sig
           in case dict_pop callargs (case var_kw_arg of None \<Rightarrow> KNone | Some p \<Rightarrow> KParam p)
                     (PDict []) of
                Inl e \<Rightarrow> Inl e
              | Inr (popped, callargs) \<Rightarrow> update_from callargs popped))"

text \<open>
  \<^verbatim>\<open>keyword_results\<close> is read by the flow as a mapping from names to values; the
  entries of \<^verbatim>\<open>callargs\<close> under a string key are all its entries (lemma
  \<open>Task_callargs_keys\<close> below).
\<close>

fun keyword_results_of :: "(dkey \<times> pyval) list \<Rightarrow> (string \<times> pyval) list" where
  "keyword_results_of [] = []"
| "keyword_results_of ((KStr k, v) # d) = (k, v) # keyword_results_of d"
| "keyword_results_of (_ # d) = keyword_results_of d"

section \<open>Task objects\<close>

text \<open>
  The class of a task object decides its work function \<^verbatim>\<open>run\<close> and hence its
  signature. \<open>TaskClass n sig\<close> is \<^verbatim>\<open>Task\<close> itself (\<open>TaskClass ''Task'' []\<close>) or a
  subclass named \<open>n\<close> whose \<^verbatim>\<open>run\<close> declares \<open>sig\<close>.
\<close>

datatype task_class = TaskClass string "param list" | ParameterClass | GetItemClass

fun class_name :: "task_class \<Rightarrow> string" where
  "class_name (TaskClass n sig) = n"
| "class_name ParameterClass = ''Parameter''"
| "class_name GetItemClass = ''GetItem''"

text \<open>
  Modelled from the spec: the work function of \<^verbatim>\<open>GetItem\<close>
  (\<^verbatim>\<open>prefect/tasks/core/operators.py\<close> is not among the sources). It extracts an element
  from one upstream output, which line 238 passes under the keyword \<^verbatim>\<open>task_result\<close>.
\<close>

fun run_signature :: "task_class \<Rightarrow> param list" where
  "run_signature (TaskClass n sig) = sig"
| "run_signature ParameterClass = []"
| "run_signature GetItemClass =
     [\<lparr>p_name = ''task_result'', p_kind = POSITIONAL_OR_KEYWORD, p_default = None, p_annotation = None\<rparr>]"

datatype trigger = all_successful | custom_trigger nat

text \<open>The subscripts whose \<^verbatim>\<open>str()\<close> is modelled: integers and strings.\<close>

datatype index = IntIndex int | StrIndex string

text \<open>
  The attributes of a task object. \<open>t_name\<close> is the attribute \<^verbatim>\<open>name\<close> of a \<^verbatim>\<open>Task\<close>
  and \<^verbatim>\<open>_name\<close> of a \<^verbatim>\<open>Parameter\<close>; \<open>None\<close> says that it is not set yet
  (\<^verbatim>\<open>hasattr\<close> is false). \<open>t_tags\<close> is the address of the task's own set of tags.
  Durations are in seconds.
\<close>

record Task =
  t_cls :: task_class
  t_name :: "string option"
  t_slug :: "string option"
  t_description :: "string option"
  t_group :: string
  t_tags :: ref
  t_environment :: "nat option"
  t_checkpoint :: bool
  t_max_retries :: int
  t_retry_delay :: int
  t_timeout :: "int option"
  t_trigger :: trigger
  t_propagate_skip :: bool
  t_required :: bool
  t_default :: pyval
  t_index :: "index option"

definition new_object :: "task_class \<Rightarrow> Task" where
  "new_object c =
     \<lparr>t_cls = c, t_name = None, t_slug = None, t_description = None, t_group = [],
      t_tags = 0, t_environment = None, t_checkpoint = False, t_max_retries = 0,
      t_retry_delay = 0, t_timeout = None, t_trigger = all_successful,
      t_propagate_skip = False, t_required = False, t_default = PNone, t_index = None\<rparr>"

subsection \<open>The properties \<^verbatim>\<open>name\<close> and \<^verbatim>\<open>slug\<close> of \<^verbatim>\<open>Parameter\<close>\<close>

definition Parameter_name :: "Task \<Rightarrow> error + string" where
  "Parameter_name self =
     (case t_name self of
        None \<Rightarrow> Inl (AttributeError ''_name'')
      | Some n \<Rightarrow> Inr n)"

definition Parameter_name_setter :: "Task \<Rightarrow> string \<Rightarrow> error + Task" where
  "Parameter_name_setter self v =
     (if t_name self \<noteq> None then Inl (AttributeError ''Parameter name can not be changed'')
      else Inr (self\<lparr>t_name := Some v\<rparr>))"

definition Parameter_slug :: "Task \<Rightarrow> error + string" where
  "Parameter_slug self = Parameter_name self"

definition Parameter_slug_setter :: "Task \<Rightarrow> string option \<Rightarrow> error + Task" where
  "Parameter_slug_setter self v =
     (case Parameter_name self of
        Inl e \<Rightarrow> Inl e
      | Inr n \<Rightarrow>
          if v \<noteq> Some n then Inl (AttributeError ''Parameter slug must be the same as its name.'')
          else Inr self)"

text \<open>
  Attribute access on any task: a \<^verbatim>\<open>Parameter\<close> goes through its properties, any
  other task reads and writes the attribute.
\<close>

definition getattr_name :: "Task \<Rightarrow> error + string" where
  "getattr_name self =
     (case t_cls self of
        ParameterClass \<Rightarrow> Parameter_name self
      | _ \<Rightarrow> (case t_name self of None \<Rightarrow> Inl (AttributeError ''name'') | Some n \<Rightarrow> Inr n))"

definition setattr_name :: "Task \<Rightarrow> string \<Rightarrow> error + Task" where
  "setattr_name self v =
     (case t_cls self of
        ParameterClass \<Rightarrow> Parameter_name_setter self v
      | _ \<Rightarrow> Inr (self\<lparr>t_name := Some v\<rparr>))"

definition getattr_slug :: "Task \<Rightarrow> error + string option" where
  "getattr_slug self =
     (case t_cls self of
        ParameterClass \<Rightarrow> (case Parameter_slug self of Inl e \<Rightarrow> Inl e | Inr n \<Rightarrow> Inr (Some n))
      | _ \<Rightarrow> Inr (t_slug self))"

definition setattr_slug :: "Task \<Rightarrow> string option \<Rightarrow> error + Task" where
  "setattr_slug self v =
     (case t_cls self of
        ParameterClass \<Rightarrow> Parameter_slug_setter self v
      | _ \<Rightarrow> Inr (self\<lparr>t_slug := v\<rparr>))"

section \<open>The context, the flows and the store\<close>

text \<open>
  \<^verbatim>\<open>prefect.context\<close> with the four keys the module reads; \<open>None\<close> is an absent key.
  The collection under \<^verbatim>\<open>_tags\<close> is a mutable object, held by its address.
\<close>

record Context =
  c_flow :: "ref option"
  c_group :: "string option"
  c_tags :: "ref option"
  c_parameters :: "(string \<times> pyval) list option"

record Edge =
  upstream_task :: ref
  downstream_task :: ref
  key :: "string option"

record Flow =
  f_tasks :: "ref list"
  f_edges :: "Edge list"

record world =
  ctx :: Context
  w_tasks :: "Task list"
  w_flows :: "Flow list"
  w_colls :: "string list list"
  w_results :: nat

text \<open>\<^verbatim>\<open>prefect.context.get(key, default)\<close>.\<close>

definition context_get :: "'a option \<Rightarrow> 'a \<Rightarrow> 'a" where
  "context_get entry dflt = (case entry of None \<Rightarrow> dflt | Some v \<Rightarrow> v)"

subsection \<open>The flow collaborator\<close>

text \<open>
  Modelled from the spec: \<^verbatim>\<open>Flow()\<close> (\<^verbatim>\<open>prefect/core/flow.py\<close> is not among the
  sources), "a freshly constructed empty flow".
\<close>

definition Flow_new :: "world \<Rightarrow> ref \<times> world" where
  "Flow_new w = (length (w_flows w), w\<lparr>w_flows := w_flows w @ [\<lparr>f_tasks = [], f_edges = []\<rparr>]\<rparr>)"

text \<open>
  Modelled from the spec: \<^verbatim>\<open>Flow.add_task\<close>, "idempotent node insertion, no-op if
  already present".
\<close>

definition add_task :: "Flow \<Rightarrow> ref \<Rightarrow> Flow" where
  "add_task fl t = (if t \<in> set (f_tasks fl) then fl else fl\<lparr>f_tasks := f_tasks fl @ [t]\<rparr>)"

definition Flow_add_task :: "world \<Rightarrow> ref \<Rightarrow> ref \<Rightarrow> world" where
  "Flow_add_task w flow t = w\<lparr>w_flows := (w_flows w)[flow := add_task (w_flows w ! flow) t]\<rparr>"

section \<open>\<^verbatim>\<open>TaskResult.__init__\<close>\<close>

definition TaskResult_init :: "world \<Rightarrow> ref \<Rightarrow> ref option \<Rightarrow> TaskResult \<times> world" where
  "TaskResult_init w task flow =
     (let (flow, w) = (case flow of None \<Rightarrow> Flow_new w | Some f \<Rightarrow> (f, w));
          w = Flow_add_task w flow task
      in (\<lparr>tr_id = w_results w, tr_task = task, tr_flow = flow\<rparr>,
          w\<lparr>w_results := Suc (w_results w)\<rparr>))"

subsection \<open>Edge creation by the flow\<close>

text \<open>
  Modelled from the spec: the validation of \<^verbatim>\<open>Flow.set_dependencies\<close>, which "must
  reject graph cycles and duplicate identity (slug) conflicts". A cycle is an edge whose
  downstream end reaches its upstream end; the slugs compared are those that are set.
\<close>

fun reaches :: "nat \<Rightarrow> Edge list \<Rightarrow> ref \<Rightarrow> ref \<Rightarrow> bool" where
  "reaches 0 es x y = (x = y)"
| "reaches (Suc n) es x y =
     (x = y \<or> (\<exists>e \<in> set es. upstream_task e = x \<and> reaches n es (downstream_task e) y))"

definition has_cycle :: "Edge list \<Rightarrow> bool" where
  "has_cycle es = (\<exists>e \<in> set es. reaches (length es) es (downstream_task e) (upstream_task e))"

definition slugs :: "world \<Rightarrow> Flow \<Rightarrow> string list" where
  "slugs w fl =
     concat (map (\<lambda>t. case getattr_slug (w_tasks w ! t) of Inr (Some s) \<Rightarrow> [s] | _ \<Rightarrow> [])
               (f_tasks fl))"

definition flow_valid :: "world \<Rightarrow> Flow \<Rightarrow> bool" where
  "flow_valid w fl = (\<not> has_cycle (f_edges fl) \<and> distinct (slugs w fl))"

text \<open>An argument that is \<^verbatim>\<open>None\<close> or a collection: \<^verbatim>\<open>xs or []\<close>.\<close>

definition iterable :: "'a list option \<Rightarrow> 'a list" where
  "iterable xs = (case xs of None \<Rightarrow> [] | Some ys \<Rightarrow> ys)"

text \<open>The task behind a bound value, when the value is a task or the result of one.\<close>

fun task_of :: "pyval \<Rightarrow> ref option" where
  "task_of (PTask t) = Some t"
| "task_of (PTaskResult r) = Some (tr_task r)"
| "task_of _ = None"

definition add_edge :: "Flow \<Rightarrow> Edge \<Rightarrow> Flow" where
  "add_edge fl e = (if e \<in> set (f_edges fl) then fl else fl\<lparr>f_edges := f_edges fl @ [e]\<rparr>)"

definition add_edges :: "Flow \<Rightarrow> Edge list \<Rightarrow> Flow" where
  "add_edges fl es = fold (\<lambda>e fl. add_edge fl e) es fl"

text \<open>
  Modelled from the spec: the edges \<^verbatim>\<open>Flow.set_dependencies\<close> creates, "for each
  keyword/result dependency and each explicit upstream/downstream task". A bound value
  that is no task is a constant and gives no edge between tasks.
\<close>

definition dependency_edges ::
  "ref \<Rightarrow> ref list option \<Rightarrow> ref list option \<Rightarrow> (string \<times> pyval) list option \<Rightarrow> Edge list" where
  "dependency_edges task upstream_tasks downstream_tasks keyword_results =
     map (\<lambda>u. \<lparr>upstream_task = u, downstream_task = task, key = None\<rparr>)
       (iterable upstream_tasks)
     @ map (\<lambda>d. \<lparr>upstream_task = task, downstream_task = d, key = None\<rparr>)
         (iterable downstream_tasks)
     @ concat (map (\<lambda>(k, v). case task_of v of
                                None \<Rightarrow> []
                              | Some u \<Rightarrow>
                                  [\<lparr>upstream_task = u, downstream_task = task, key = Some k\<rparr>])
                 (iterable keyword_results))"

text \<open>
  Modelled from the spec: \<^verbatim>\<open>Flow.set_dependencies\<close>, which "creates edges [...]; when
  validate is true, must reject graph cycles and duplicate identity (slug) conflicts;
  returns a TaskResult bound to (task, flow)". The result is built by
  \<^verbatim>\<open>TaskResult.__init__\<close>.
\<close>

definition Flow_set_dependencies ::
  "world \<Rightarrow> ref \<Rightarrow> ref \<Rightarrow> ref list option \<Rightarrow> ref list option \<Rightarrow> (string \<times> pyval) list option
     \<Rightarrow> bool \<Rightarrow> error + (TaskResult \<times> world)" where
  "Flow_set_dependencies w flow task upstream_tasks downstream_tasks keyword_results validate =
     (let (result, w) = TaskResult_init w task (Some flow);
          new_edges = dependency_edges task upstream_tasks downstream_tasks keyword_results;
          w = w\<lparr>w_flows := (w_flows w)[flow := add_edges (w_flows w ! flow) new_edges]\<rparr>
      in if validate \<and> \<not> flow_valid w (w_flows w ! flow)
           then Inl (ValueError ''the flow rejects the dependencies'')
         else Inr (result, w))"

section \<open>\<^verbatim>\<open>Task.__init__\<close>\<close>

text \<open>\<^verbatim>\<open>s or dflt\<close> for an optional string: \<^verbatim>\<open>None\<close> and the empty string are false.\<close>

definition str_or :: "string option \<Rightarrow> string \<Rightarrow> string" where
  "str_or s dflt = (case s of None \<Rightarrow> dflt | Some v \<Rightarrow> if v = [] then dflt else v)"

text \<open>
  The argument \<^verbatim>\<open>tags\<close>: \<^verbatim>\<open>None\<close>, one string (line 57 wraps it in a list) or a
  collection of strings.
\<close>

datatype tags_arg = NoTags | TagStr string | TagList "string list"

fun tag_list :: "tags_arg \<Rightarrow> string list" where
  "tag_list NoTags = []"
| "tag_list (TagStr s) = [s]"
| "tag_list (TagList xs) = xs"

text \<open>
  \<open>self\<close> is the object under construction, with what a subclass constructor has
  stored before it calls \<^verbatim>\<open>super().__init__\<close>. \<^verbatim>\<open>set(tags or [])\<close> is a new object in
  the store of collections, a set being a list without duplicates; \<^verbatim>\<open>update\<close> then adds
  the members of the ambient collection. The new task is returned by its address.
\<close>

definition Task_init ::
  "world \<Rightarrow> Task \<Rightarrow> string option \<Rightarrow> string option \<Rightarrow> string option \<Rightarrow> string option \<Rightarrow> tags_arg
     \<Rightarrow> int \<Rightarrow> int \<Rightarrow> int option \<Rightarrow> trigger option \<Rightarrow> bool \<Rightarrow> nat option \<Rightarrow> bool
     \<Rightarrow> error + (ref \<times> world)" where
  "Task_init w self name slug description grp tags max_retries retry_delay timeout trig
       propagate_skip environment checkpoint =
     (case setattr_name self (str_or name (class_name (t_cls self))) of
        Inl e \<Rightarrow> Inl e
      | Inr self \<Rightarrow>
          (case setattr_slug self slug of
             Inl e \<Rightarrow> Inl e
           | Inr self \<Rightarrow>
               (let self = self\<lparr>t_description := description\<rparr>;
                    self = self\<lparr>t_group := str_or grp (context_get (c_group (ctx w)) [])\<rparr>;
                    tagset = length (w_colls w);
                    w = w\<lparr>w_colls := w_colls w @ [remdups (tag_list tags)]\<rparr>;
                    self = self\<lparr>t_tags := tagset\<rparr>;
                    ambient = (case c_tags (ctx w) of None \<Rightarrow> [] | Some a \<Rightarrow> w_colls w ! a);
                    w = w\<lparr>w_colls := (w_colls w)[tagset := remdups (w_colls w ! tagset @ ambient)]\<rparr>;
                    self = self\<lparr>t_environment := environment, t_checkpoint := checkpoint\<rparr>;
                    self = self\<lparr>t_max_retries := max_retries, t_retry_delay := retry_delay,
                                 t_timeout := timeout\<rparr>;
                    self = self\<lparr>t_trigger := (case trig of None \<Rightarrow> all_successful | Some g \<Rightarrow> g),
                                 t_propagate_skip := propagate_skip\<rparr>;
                    me = length (w_tasks w);
                    w = w\<lparr>w_tasks := w_tasks w @ [self]\<rparr>
                in Inr (me, case c_flow (ctx w) of None \<Rightarrow> w | Some flow \<Rightarrow> Flow_add_task w flow me))))"

section \<open>\<^verbatim>\<open>Parameter\<close>\<close>

definition Parameter_init :: "world \<Rightarrow> string \<Rightarrow> pyval \<Rightarrow> bool \<Rightarrow> error + (ref \<times> world)" where
  "Parameter_init w name dflt required =
     (let required = (if dflt \<noteq> PNone then False else required);
          self = (new_object ParameterClass)\<lparr>t_required := required\<rparr>;
          self = self\<lparr>t_default := dflt\<rparr>
      in Task_init w self (Some name) (Some name) None None NoTags 0 60 None None False None False)"



section \<open>Dependencies: \<^verbatim>\<open>Task.set_dependencies\<close> and \<^verbatim>\<open>Task.__call__\<close>\<close>

text \<open>
  The default of \<^verbatim>\<open>prefect.context.get("_flow", prefect.Flow())\<close> is an argument, so
  the new flow is constructed whether the key is present or not.
\<close>

definition Task_set_dependencies ::
  "world \<Rightarrow> ref \<Rightarrow> ref option \<Rightarrow> ref list option \<Rightarrow> ref list option
     \<Rightarrow> (string \<times> pyval) list option \<Rightarrow> bool \<Rightarrow> error + (TaskResult \<times> world)" where
  "Task_set_dependencies w self flow upstream_tasks downstream_tasks keyword_results validate =
     (let (flow, w) =
            (case flow of
               None \<Rightarrow> (let (fresh, w) = Flow_new w in (context_get (c_flow (ctx w)) fresh, w))
             | Some f \<Rightarrow> (f, w))
      in Flow_set_dependencies w flow self upstream_tasks downstream_tasks keyword_results
           validate)"

text \<open>
  The invocation \<^verbatim>\<open>task(*args, upstream_tasks=upstream_tasks, **kwargs)\<close>. Python binds
  the call to the parameters of \<^verbatim>\<open>__call__\<close> before line 110 runs: \<^verbatim>\<open>upstream_tasks\<close> has
  the value written out and \<^verbatim>\<open>self\<close> has its value from the bound method, so a keyword
  of either name among \<^verbatim>\<open>kwargs\<close> gives a second value, which is a \<^verbatim>\<open>TypeError\<close>, raised
  where the keywords are merged for the first and where the parameters are filled for the
  second.
\<close>

definition Task_call ::
  "world \<Rightarrow> ref \<Rightarrow> pyval list \<Rightarrow> ref list option \<Rightarrow> (string \<times> pyval) list
     \<Rightarrow> error + (TaskResult \<times> world)" where
  "Task_call w self args upstream_tasks kwargs =
     (if ''upstream_tasks'' \<in> keys kwargs
        then Inl (TypeError (''got multiple values for keyword argument ''
                               @ repr ''upstream_tasks''))
      else if ''self'' \<in> keys kwargs
        then Inl (TypeError (''got multiple values for argument '' @ repr ''self''))
      else
        (case Task_callargs (run_signature (t_cls (w_tasks w ! self))) args kwargs of
           Inl e \<Rightarrow> Inl e
         | Inr callargs \<Rightarrow>
             (let (fresh, w) = Flow_new w;
                  flow = context_get (c_flow (ctx w)) fresh
              in Task_set_dependencies w self (Some flow) upstream_tasks None
                   (Some (keyword_results_of callargs)) True)))"

section \<open>\<^verbatim>\<open>TaskResult.__getitem__\<close>\<close>

text \<open>\<^verbatim>\<open>str()\<close> of a subscript, as \<^verbatim>\<open>"{}[{}]".format\<close> renders it.\<close>

fun str_nat :: "nat \<Rightarrow> string" where
  "str_nat n =
     (if n < 10 then [char_of (48 + n)] else str_nat (n div 10) @ [char_of (48 + n mod 10)])"

declare str_nat.simps [simp del]

definition str_int :: "int \<Rightarrow> string" where
  "str_int i = (if i < 0 then ''-'' @ str_nat (nat (- i)) else str_nat (nat i))"

fun str_index :: "index \<Rightarrow> string" where
  "str_index (IntIndex i) = str_int i"
| "str_index (StrIndex s) = s"

text \<open>
  Modelled from the spec: the constructor of \<^verbatim>\<open>GetItem\<close>
  (\<^verbatim>\<open>prefect/tasks/core/operators.py\<close> is not among the sources), an "extract element
  index from upstream output" operator: it keeps the index and is otherwise a task
  constructed with the given name.
\<close>

definition GetItem_init :: "world \<Rightarrow> index \<Rightarrow> string \<Rightarrow> error + (ref \<times> world)" where
  "GetItem_init w i name =
     (let self = (new_object GetItemClass)\<lparr>t_index := Some i\<rparr>
      in Task_init w self (Some name) None None None NoTags 0 60 None None False None False)"

definition TaskResult_getitem :: "world \<Rightarrow> TaskResult \<Rightarrow> index \<Rightarrow> error + (TaskResult \<times> world)" where
  "TaskResult_getitem w self i =
     (case getattr_name (w_tasks w ! tr_task self) of
        Inl e \<Rightarrow> Inl e
      | Inr n \<Rightarrow>
          (case GetItem_init w i (n @ ''['' @ str_index i @ '']'') of
             Inl e \<Rightarrow> Inl e
           | Inr (index_task, w) \<Rightarrow>
               Task_call w index_task [] None [(''task_result'', PTaskResult self)]))"

section \<open>What other code does to the ambient context\<close>

text \<open>
  After a task is constructed, the collection under \<^verbatim>\<open>_tags\<close> can be mutated in place
  (its contents become any other list) and the keys of the context can be bound anew.
\<close>

definition collection_assign :: "world \<Rightarrow> ref \<Rightarrow> string list \<Rightarrow> world" where
  "collection_assign w a xs = w\<lparr>w_colls := (w_colls w)[a := xs]\<rparr>"

definition context_assign :: "world \<Rightarrow> Context \<Rightarrow> world" where
  "context_assign w c = w\<lparr>ctx := c\<rparr>"

definition tags_of :: "world \<Rightarrow> ref \<Rightarrow> string set" where
  "tags_of w t = set (w_colls w ! t_tags (w_tasks w ! t))"

definition group_of :: "world \<Rightarrow> ref \<Rightarrow> string" where
  "group_of w t = t_group (w_tasks w ! t)"

section \<open>The failures of binding, in the words of the specification\<close>



definition positional :: "param list \<Rightarrow> param list" where
  "positional sig = filter (\<lambda>p. p_kind p = POSITIONAL_OR_KEYWORD) sig"










section \<open>Example signatures and worlds\<close>

text \<open>\<^verbatim>\<open>def run(self, a, b=1)\<close> and \<^verbatim>\<open>def run(self, a, **rest)\<close>.\<close>

definition sig_a_b :: "param list" where
  "sig_a_b =
     [\<lparr>p_name = ''a'', p_kind = POSITIONAL_OR_KEYWORD, p_default = None, p_annotation = None\<rparr>,
      \<lparr>p_name = ''b'', p_kind = POSITIONAL_OR_KEYWORD, p_default = Some (PInt 1), p_annotation = None\<rparr>]"

definition sig_a_rest :: "param list" where
  "sig_a_rest =
     [\<lparr>p_name = ''a'', p_kind = POSITIONAL_OR_KEYWORD, p_default = None, p_annotation = None\<rparr>,
      \<lparr>p_name = ''rest'', p_kind = VAR_KEYWORD, p_default = None, p_annotation = None\<rparr>]"

text \<open>\<^verbatim>\<open>def run(self, a, **rest: [int])\<close>, whose annotation is a list.\<close>

definition sig_a_rest_list :: "param list" where
  "sig_a_rest_list =
     [\<lparr>p_name = ''a'', p_kind = POSITIONAL_OR_KEYWORD, p_default = None, p_annotation = None\<rparr>,
      \<lparr>p_name = ''rest'', p_kind = VAR_KEYWORD, p_default = None,
       p_annotation = Some (PList [PClass ''int''])\<rparr>]"

text \<open>A context with no key set, and the store before anything is constructed.\<close>

definition empty_context :: Context where
  "empty_context = \<lparr>c_flow = None, c_group = None, c_tags = None, c_parameters = None\<rparr>"

definition empty_world :: world where
  "empty_world = \<lparr>ctx = empty_context, w_tasks = [], w_flows = [], w_colls = [], w_results = 0\<rparr>"

text \<open>
  One task \<open>T\<close> with the work function \<^verbatim>\<open>run(self, a, b=1)\<close>, constructed inside the
  flow at address 0, which is the ambient flow.
\<close>

definition world_T :: world where
  "world_T =
     \<lparr>ctx = empty_context\<lparr>c_flow := Some 0\<rparr>,
      w_tasks = [(new_object (TaskClass ''T'' sig_a_b))\<lparr>t_name := Some ''T'', t_retry_delay := 60\<rparr>],
      w_flows = [\<lparr>f_tasks = [0], f_edges = []\<rparr>],
      w_colls = [[]],
      w_results = 0\<rparr>"


text \<open>A parameter named \<open>x\<close>; a required parameter \<open>n\<close>; a parameter \<open>n\<close> with the default 5.\<close>

definition param_x :: Task where
  "param_x = (new_object ParameterClass)\<lparr>t_name := Some ''x''\<rparr>"



section \<open>Assignments to the attributes of a task\<close>

text \<open>
  A script that assigns to \<^verbatim>\<open>name\<close> and \<^verbatim>\<open>slug\<close> of one object, again and again. An
  assignment that raises leaves the object as it was, and the script goes on.
\<close>

datatype assignment = AssignName string | AssignSlug "string option"

fun assign :: "Task \<Rightarrow> assignment \<Rightarrow> error + Task" where
  "assign self (AssignName v) = setattr_name self v"
| "assign self (AssignSlug v) = setattr_slug self v"

fun assign_all :: "Task \<Rightarrow> assignment list \<Rightarrow> Task" where
  "assign_all self [] = self"
| "assign_all self (a # as) =
     (case assign self a of
        Inl e \<Rightarrow> assign_all self as
      | Inr self' \<Rightarrow> assign_all self' as)"

definition is_AttributeError :: "error + 'a \<Rightarrow> bool" where
  "is_AttributeError r = (\<exists>m. r = Inl (AttributeError m))"

text \<open>
  The object that \<^verbatim>\<open>Task.__init__\<close> stores, once \<^verbatim>\<open>name\<close> and \<^verbatim>\<open>slug\<close> are assigned.
\<close>

definition built :: "world \<Rightarrow> Task \<Rightarrow> string option \<Rightarrow> string option \<Rightarrow> tags_arg \<Rightarrow> int
    \<Rightarrow> int \<Rightarrow> int option \<Rightarrow> trigger option \<Rightarrow> bool \<Rightarrow> nat option \<Rightarrow> bool \<Rightarrow> Task" where
  "built w self2 description grp tags mr rd tmo trig ps env cp =
     self2\<lparr>t_description := description,
            t_group := str_or grp (context_get (c_group (ctx w)) []),
            t_tags := length (w_colls w), t_environment := env,
            t_checkpoint := cp, t_max_retries := mr,
            t_retry_delay := rd, t_timeout := tmo,
            t_trigger := (case trig of None \<Rightarrow> all_successful | Some g \<Rightarrow> g),
            t_propagate_skip := ps\<rparr>"

section \<open>Changes to the ambient context\<close>

text \<open>
  Any number of changes, each a mutation of a collection or a new binding of the context.
  \<open>older n\<close> holds of a mutation of a collection that was in the store when it had
  \<open>n\<close> collections. \<open>ambient_valid\<close> says that the collection under \<^verbatim>\<open>_tags\<close> is in the
  store, and \<open>ambient_tags\<close> are its members.
\<close>

datatype ambient_change = MutateCollection ref "string list" | RebindContext Context

fun change :: "world \<Rightarrow> ambient_change \<Rightarrow> world" where
  "change w (MutateCollection a xs) = collection_assign w a xs"
| "change w (RebindContext c) = context_assign w c"

fun older :: "nat \<Rightarrow> ambient_change \<Rightarrow> bool" where
  "older n (MutateCollection a xs) = (a < n)"
| "older n (RebindContext c) = True"

definition ambient_valid :: "world \<Rightarrow> bool" where
  "ambient_valid w = (case c_tags (ctx w) of None \<Rightarrow> True | Some a \<Rightarrow> a < length (w_colls w))"

definition ambient_tags :: "world \<Rightarrow> string set" where
  "ambient_tags w = (case c_tags (ctx w) of None \<Rightarrow> {} | Some a \<Rightarrow> set (w_colls w ! a))"

text \<open>
  A context with the group \<open>g\<close> and the ambient tags \<open>a\<close> and \<open>b\<close>, held in the
  collection at address 0.
\<close>

definition world_tags :: world where
  "world_tags =
     \<lparr>ctx = empty_context\<lparr>c_tags := Some 0, c_group := Some ''g''\<rparr>,
      w_tasks = [], w_flows = [], w_colls = [[''a'', ''b'']], w_results = 0\<rparr>"

section \<open>Flows in the store\<close>

text \<open>
  \<open>ambient_flow_valid\<close> says that the flow under \<^verbatim>\<open>_flow\<close>, when the key is set, is in
  the store. \<open>resolved_flow\<close> is the flow the ambient context gives, or else the address
  the next \<^verbatim>\<open>Flow()\<close> gets.
\<close>

definition ambient_flow_valid :: "world \<Rightarrow> bool" where
  "ambient_flow_valid w = (case c_flow (ctx w) of None \<Rightarrow> True | Some g \<Rightarrow> g < length (w_flows w))"

definition resolved_flow :: "world \<Rightarrow> ref" where
  "resolved_flow w = (case c_flow (ctx w) of None \<Rightarrow> length (w_flows w) | Some g \<Rightarrow> g)"

text \<open>The task \<open>T\<close> of \<open>world_T\<close> with no ambient flow.\<close>

definition world_T_alone :: world where
  "world_T_alone = world_T\<lparr>ctx := empty_context\<rparr>"

text \<open>The flow an invocation works on before it registers its task.\<close>

definition ambient_flow :: "world \<Rightarrow> Flow" where
  "ambient_flow w =
     (case c_flow (ctx w) of None \<Rightarrow> \<lparr>f_tasks = [], f_edges = []\<rparr> | Some g \<Rightarrow> w_flows w ! g)"

text \<open>The task \<open>T\<close> before it is registered in the ambient flow.\<close>

definition world_T_new :: world where
  "world_T_new = world_T\<lparr>w_flows := [\<lparr>f_tasks = [], f_edges = []\<rparr>]\<rparr>"

text \<open>
  The name line 237 gives the derived task, and the edge that makes it downstream of the
  result it is taken from.
\<close>

definition item_edge :: "TaskResult \<Rightarrow> TaskResult \<Rightarrow> Edge" where
  "item_edge r r' =
     \<lparr>upstream_task = tr_task r, downstream_task = tr_task r', key = Some ''task_result''\<rparr>"

definition item_name :: "string \<Rightarrow> index \<Rightarrow> string" where
  "item_name n i = n @ ''['' @ str_index i @ '']''"

text \<open>
  The result of \<open>T\<close> in flow 0, and a store where flow 0 holds \<open>T\<close> and the ambient flow
  is another one, flow 1.
\<close>

definition result_T :: TaskResult where
  "result_T = \<lparr>tr_id = 0, tr_task = 0, tr_flow = 0\<rparr>"

definition world_two_flows :: world where
  "world_two_flows =
     world_T\<lparr>ctx := empty_context\<lparr>c_flow := Some 1\<rparr>,
             w_flows := [\<lparr>f_tasks = [0], f_edges = []\<rparr>, \<lparr>f_tasks = [], f_edges = []\<rparr>],
             w_results := 1\<rparr>"

section \<open>Binding, in the words of the specification\<close>


text \<open>
  An argument of the invocation itself, \<^verbatim>\<open>self\<close> or \<^verbatim>\<open>upstream_tasks\<close>, is named again
  among the keywords.
\<close>

definition named_again :: "(string \<times> pyval) list \<Rightarrow> bool" where
  "named_again kwargs = (''self'' \<in> keys kwargs \<or> ''upstream_tasks'' \<in> keys kwargs)"

text \<open>
  The key of line 119 can be hashed: the signature has no \<^verbatim>\<open>**\<close> parameter, or one whose
  annotation is hashable.
\<close>

definition hashable_signature :: "param list \<Rightarrow> bool" where
  "hashable_signature sig =
     hashable_key (case find (\<lambda>p. p_kind p = VAR_KEYWORD) sig of
                     None \<Rightarrow> KNone
                   | Some p \<Rightarrow> KParam p)"

section \<open>Properties of binding\<close>




















lemma map_of_KStr_other:
  "k \<notin> range KStr \<Longrightarrow> map_of (map (\<lambda>(n, v). (KStr n, v)) d) k = None"
  by (induction d) auto

lemma Task_callargs_eq:
  "Task_callargs sig args kwargs =
     (case bind sig args kwargs of
        Inl e \<Rightarrow> Inl e
      | Inr a \<Rightarrow>
          if a \<noteq> [] \<and> \<not> hashable_signature sig then Inl (TypeError ''unhashable type'')
          else Inr (map (\<lambda>(k, v). (KStr k, v)) a))"
proof -
  have "map_of (map (\<lambda>(n, v). (KStr n, v)) d)
          (case find (\<lambda>p. p_kind p = VAR_KEYWORD) sig of None \<Rightarrow> KNone | Some p \<Rightarrow> KParam p) = None"
    for d :: "(string \<times> pyval) list"
    by (rule map_of_KStr_other) (auto split: option.splits)
  then show ?thesis
    by (simp add: Task_callargs_def dict_pop_def update_from_def dict_update_def Let_def
          hashable_signature_def split: sum.splits)
qed

lemma keyword_results_of_KStr:
  "keyword_results_of (map (\<lambda>(k, v). (KStr k, v)) d) = d"
  by (induction d) auto

lemma Task_callargs_keys:
  "Task_callargs sig args kwargs = Inr d \<Longrightarrow> keys d \<subseteq> range KStr"
  by (auto simp: Task_callargs_eq keys_def split: sum.splits if_splits)

lemma Task_callargs_Inr:
  "Task_callargs sig args kwargs = Inr ca \<Longrightarrow>
     bind sig args kwargs = Inr (keyword_results_of ca)"
  by (auto simp: Task_callargs_eq keyword_results_of_KStr split: sum.splits if_splits)

lemma Task_callargs_hashable:
  "hashable_signature sig \<Longrightarrow>
     Task_callargs sig args kwargs =
       (case bind sig args kwargs of
          Inl e \<Rightarrow> Inl e
        | Inr a \<Rightarrow> Inr (map (\<lambda>(k, v). (KStr k, v)) a))"
  by (simp add: Task_callargs_eq split: sum.splits)
















lemma hashable_sig_a_rest: "hashable_signature sig_a_rest"
  by (simp add: hashable_signature_def sig_a_rest_def)


text \<open>
  With an unhashable annotation on the \<^verbatim>\<open>**\<close> parameter, line 119 raises as soon as one
  argument is bound, and returns when none is.
\<close>

lemma Task_callargs_unhashable:
  "Task_callargs sig_a_rest_list [] [(''a'', PInt 1)] = Inl (TypeError ''unhashable type'')"
  by (simp add: Task_callargs_eq hashable_signature_def bind_def bind_rest_def
        sig_a_rest_list_def keys_def)

lemma Task_callargs_unhashable_empty:
  "Task_callargs [\<lparr>p_name = ''rest'', p_kind = VAR_KEYWORD, p_default = None,
                    p_annotation = Some (PList [PClass ''int''])\<rparr>] [] [] = Inr []"
  by (simp add: Task_callargs_eq bind_def bind_rest_def)

section \<open>The claims about binding\<close>

text \<open>
  Claim C1 says that the overflow mapping of a work function \<^verbatim>\<open>(a, **rest)\<close> is
  flattened, so that invoking with \<^verbatim>\<open>(a=1, x=2, y=3)\<close> binds \<^verbatim>\<open>{a:1, x:2, y:3}\<close>. The
  code pops the key \<^verbatim>\<open>var_kw_arg\<close>, the parameter object, where the dictionary has the
  parameter's name: nothing is popped (\<open>Task_callargs_eq\<close>), and the bound mapping keeps
  the overflow nested under \<^verbatim>\<open>rest\<close>.
\<close>

theorem Task_callargs_overflow_nested:
  "Task_callargs sig_a_rest [] [(''a'', PInt 1), (''x'', PInt 2), (''y'', PInt 3)]
     = Inr [(KStr ''a'', PInt 1), (KStr ''rest'', PDict [(''x'', PInt 2), (''y'', PInt 3)])]"
  unfolding Task_callargs_hashable [OF hashable_sig_a_rest]
  by (simp add: bind_def bind_rest_def sig_a_rest_def keys_def)




section \<open>Properties of construction\<close>

lemma Flow_add_task_simps [simp]:
  "ctx (Flow_add_task w f t) = ctx w"
  "w_tasks (Flow_add_task w f t) = w_tasks w"
  "w_colls (Flow_add_task w f t) = w_colls w"
  "w_results (Flow_add_task w f t) = w_results w"
  "w_flows (Flow_add_task w f t) = (w_flows w)[f := add_task (w_flows w ! f) t]"
  by (simp_all add: Flow_add_task_def)

lemma setattr_name_fields:
  "setattr_name self v = Inr self' \<Longrightarrow>
     self' = self\<lparr>t_name := Some v\<rparr>"
  by (auto simp: setattr_name_def Parameter_name_setter_def split: task_class.splits if_splits)

lemma setattr_slug_fields:
  "setattr_slug self v = Inr self' \<Longrightarrow>
     (t_cls self = ParameterClass \<and> self' = self \<and> v = t_name self)
     \<or> (t_cls self \<noteq> ParameterClass \<and> self' = self\<lparr>t_slug := v\<rparr>)"
  by (auto simp: setattr_slug_def Parameter_slug_setter_def Parameter_name_def
        split: task_class.splits if_splits sum.splits option.splits)

lemma Task_init_unfold:
  assumes "Task_init w self name slug description grp tags mr rd tmo trig ps env cp = Inr (p, w')"
  shows "\<exists>self1 self2.
           setattr_name self (str_or name (class_name (t_cls self))) = Inr self1
         \<and> setattr_slug self1 slug = Inr self2
         \<and> p = length (w_tasks w)
         \<and> ctx w' = ctx w \<and> w_results w' = w_results w
         \<and> w_tasks w' = w_tasks w @ [built w self2 description grp tags mr rd tmo trig ps env cp]
         \<and> w_colls w' = w_colls w @ [remdups (remdups (tag_list tags)
              @ (case c_tags (ctx w) of None \<Rightarrow> []
                 | Some a \<Rightarrow> (w_colls w @ [remdups (tag_list tags)]) ! a))]
         \<and> w_flows w' = (case c_flow (ctx w) of None \<Rightarrow> w_flows w
              | Some f \<Rightarrow> (w_flows w)[f := add_task (w_flows w ! f) p])"
proof -
  obtain self1 where s1: "setattr_name self (str_or name (class_name (t_cls self))) = Inr self1"
    using assms by (auto simp: Task_init_def split: sum.splits)
  obtain self2 where s2: "setattr_slug self1 slug = Inr self2"
    using assms s1 by (auto simp: Task_init_def split: sum.splits)
  show ?thesis
    using assms s1 s2
    by (auto simp: Task_init_def Let_def built_def split: option.splits)
qed

lemma Task_init_task:
  assumes "Task_init w self name slug description grp tags mr rd tmo trig ps env cp = Inr (p, w')"
  shows "\<exists>t. w_tasks w' = w_tasks w @ [t]
           \<and> t_cls t = t_cls self \<and> t_required t = t_required self
           \<and> t_default t = t_default self \<and> t_index t = t_index self
           \<and> t_name t = Some (str_or name (class_name (t_cls self)))
           \<and> t_tags t = length (w_colls w)
           \<and> t_group t = str_or grp (context_get (c_group (ctx w)) [])
           \<and> (t_cls self = ParameterClass \<longrightarrow> slug = Some (str_or name (class_name (t_cls self))))
           \<and> (t_cls self \<noteq> ParameterClass \<longrightarrow> t_slug t = slug)"
proof -
  obtain self1 self2 where
    s1: "setattr_name self (str_or name (class_name (t_cls self))) = Inr self1"
    and s2: "setattr_slug self1 slug = Inr self2"
    and t: "w_tasks w' = w_tasks w @ [built w self2 description grp tags mr rd tmo trig ps env cp]"
    using Task_init_unfold [OF assms] by blast
  have f1: "self1 = self\<lparr>t_name := Some (str_or name (class_name (t_cls self)))\<rparr>"
    using setattr_name_fields [OF s1] .
  show ?thesis
    using setattr_slug_fields [OF s2] t unfolding f1
    by (auto simp: built_def)
qed

section \<open>The claims about parameters\<close>

lemma Parameter_assign_keeps:
  "t_cls self = ParameterClass \<Longrightarrow> t_name self = Some n \<Longrightarrow> assign self a = Inr self'
     \<Longrightarrow> self' = self"
  by (cases a)
    (auto simp: setattr_name_def setattr_slug_def Parameter_name_setter_def
       Parameter_slug_setter_def Parameter_name_def split: if_splits)

lemma Parameter_assign_all:
  "t_cls self = ParameterClass \<Longrightarrow> t_name self = Some n \<Longrightarrow> assign_all self as = self"
proof (induction as)
  case Nil
  then show ?case by simp
next
  case (Cons a as)
  then show ?case
    by (auto split: sum.splits dest: Parameter_assign_keeps)
qed

text \<open>
  Claim C3. For every \<^verbatim>\<open>Parameter\<close>: the name is write-once (the first assignment
  succeeds, every later one fails with an \<^verbatim>\<open>AttributeError\<close>); the slug equals the name
  at all times, also after any script of assignments; assigning to the slug a value other
  than the current name fails with an \<^verbatim>\<open>AttributeError\<close>, and assigning the current name
  succeeds and changes nothing.
\<close>

theorem Parameter_name_write_once:
  "t_cls self = ParameterClass \<Longrightarrow>
     (t_name self = None \<longrightarrow>
        setattr_name self v = Inr (self\<lparr>t_name := Some v\<rparr>)
        \<and> getattr_name (self\<lparr>t_name := Some v\<rparr>) = Inr v)
   \<and> (t_name self \<noteq> None \<longrightarrow> is_AttributeError (setattr_name self v))
   \<and> getattr_slug self = map_sum id Some (getattr_name self)
   \<and> (\<forall>n. getattr_name self = Inr n \<longrightarrow>
          getattr_slug self = Inr (Some n)
        \<and> setattr_slug self (Some n) = Inr self
        \<and> (\<forall>u. u \<noteq> Some n \<longrightarrow> is_AttributeError (setattr_slug self u))
        \<and> (\<forall>as. getattr_name (assign_all self as) = Inr n
                 \<and> getattr_slug (assign_all self as) = Inr (Some n)))"
proof (intro conjI impI allI)
  assume c: "t_cls self = ParameterClass"
  show "getattr_slug self = map_sum id Some (getattr_name self)"
    using c by (simp add: getattr_slug_def getattr_name_def Parameter_slug_def split: sum.splits)
  {
    assume "t_name self = None"
    then show "setattr_name self v = Inr (self\<lparr>t_name := Some v\<rparr>)"
      using c by (simp add: setattr_name_def Parameter_name_setter_def)
    show "getattr_name (self\<lparr>t_name := Some v\<rparr>) = Inr v"
      using c by (simp add: getattr_name_def Parameter_name_def)
  }
  {
    assume "t_name self \<noteq> None"
    then show "is_AttributeError (setattr_name self v)"
      using c by (simp add: setattr_name_def Parameter_name_setter_def is_AttributeError_def)
  }
  {
    fix n assume n: "getattr_name self = Inr n"
    then have tn: "t_name self = Some n"
      using c by (simp add: getattr_name_def Parameter_name_def split: option.splits)
    show "getattr_slug self = Inr (Some n)"
      using c tn by (simp add: getattr_slug_def Parameter_slug_def Parameter_name_def)
    show "setattr_slug self (Some n) = Inr self"
      using c tn by (simp add: setattr_slug_def Parameter_slug_setter_def Parameter_name_def)
    {
      fix u :: "string option" assume "u \<noteq> Some n"
      then show "is_AttributeError (setattr_slug self u)"
        using c tn
        by (simp add: setattr_slug_def Parameter_slug_setter_def Parameter_name_def
              is_AttributeError_def)
    }
    {
      fix as
      have same: "assign_all self as = self" using c tn by (rule Parameter_assign_all)
      show "getattr_name (assign_all self as) = Inr n" unfolding same by (rule n)
      show "getattr_slug (assign_all self as) = Inr (Some n)"
        unfolding same using c tn
        by (simp add: getattr_slug_def Parameter_slug_def Parameter_name_def)
    }
  }
qed

text \<open>
  The theorem at a new \<^verbatim>\<open>Parameter\<close> object that is named \<open>x\<close> and then assigned to.
\<close>

theorem Parameter_name_write_once_witness:
  "t_cls (new_object ParameterClass) = ParameterClass
   \<and> setattr_name (new_object ParameterClass) ''x'' = Inr param_x
   \<and> getattr_name param_x = Inr ''x''
   \<and> getattr_slug param_x = Inr (Some ''x'')
   \<and> is_AttributeError (setattr_name param_x ''y'')
   \<and> is_AttributeError (setattr_slug param_x (Some ''y''))
   \<and> setattr_slug param_x (Some ''x'') = Inr param_x
   \<and> getattr_name (assign_all param_x [AssignName ''y'', AssignSlug (Some ''y''), AssignSlug None])
        = Inr ''x''"
proof -
  have c0: "t_cls (new_object ParameterClass) = ParameterClass"
    and n0: "t_name (new_object ParameterClass) = None"
    by (simp_all add: new_object_def)
  have c1: "t_cls param_x = ParameterClass" and n1: "t_name param_x \<noteq> None"
    by (simp_all add: param_x_def new_object_def)
  have g: "getattr_name param_x = Inr ''x''"
    by (simp add: param_x_def new_object_def getattr_name_def Parameter_name_def)
  have a: "setattr_name (new_object ParameterClass) ''x'' = Inr param_x"
    using Parameter_name_write_once [OF c0, of "''x''"] n0 by (simp add: param_x_def)
  note t = Parameter_name_write_once [OF c1, of "''y''"]
  have b: "is_AttributeError (setattr_name param_x ''y'')"
    using t [THEN conjunct2, THEN conjunct1] n1 by (rule mp)
  note q = t [THEN conjunct2, THEN conjunct2, THEN conjunct2, THEN spec, of "''x''", THEN mp, OF g]
  have c: "getattr_slug param_x = Inr (Some ''x'')"
    using q by (rule conjunct1)
  have d: "setattr_slug param_x (Some ''x'') = Inr param_x"
    using q [THEN conjunct2] by (rule conjunct1)
  have e: "is_AttributeError (setattr_slug param_x (Some ''y''))"
    using q [THEN conjunct2, THEN conjunct2, THEN conjunct1, THEN spec, of "Some ''y''"] by simp
  have f: "getattr_name (assign_all param_x [AssignName ''y'', AssignSlug (Some ''y''), AssignSlug None])
        = Inr ''x''"
    using q [THEN conjunct2, THEN conjunct2, THEN conjunct2, THEN spec,
        of "[AssignName ''y'', AssignSlug (Some ''y''), AssignSlug None]"]
    by (rule conjunct1)
  show ?thesis
    by (intro conjI c0 a g c b e d f)
qed



lemma Parameter_init_succeeds:
  "name \<noteq> [] \<Longrightarrow> \<exists>p w'. Parameter_init w name dflt required = Inr (p, w')"
  by (simp add: Parameter_init_def Task_init_def Let_def setattr_name_def setattr_slug_def
        Parameter_name_setter_def Parameter_slug_setter_def Parameter_name_def
        new_object_def str_or_def)

text \<open>
  Claim C5. A \<^verbatim>\<open>Parameter\<close> constructed with a default other than \<^verbatim>\<open>None\<close> is not
  required, whatever the argument \<^verbatim>\<open>required\<close>; with the default \<^verbatim>\<open>None\<close> the argument
  is kept. The constructor returns for every non-empty name, and the new parameter has
  the given name, which is its slug too.
\<close>

theorem Parameter_init_required:
  "(name \<noteq> [] \<longrightarrow> (\<exists>p w'. Parameter_init w name dflt required = Inr (p, w')))
   \<and> (\<forall>p w'. Parameter_init w name dflt required = Inr (p, w') \<longrightarrow>
          t_required (w_tasks w' ! p) = (if dflt \<noteq> PNone then False else required)
        \<and> t_default (w_tasks w' ! p) = dflt
        \<and> getattr_name (w_tasks w' ! p) = Inr name
        \<and> getattr_slug (w_tasks w' ! p) = Inr (Some name))"
proof (intro conjI impI allI)
  assume "name \<noteq> []"
  then show "\<exists>p w'. Parameter_init w name dflt required = Inr (p, w')"
    by (rule Parameter_init_succeeds)
next
  fix p w'
  assume a: "Parameter_init w name dflt required = Inr (p, w')"
  let ?self = "(new_object ParameterClass)\<lparr>t_required := (if dflt \<noteq> PNone then False else required),
                  t_default := dflt\<rparr>"
  have i: "Task_init w ?self (Some name) (Some name) None None NoTags 0 60 None None False None False
             = Inr (p, w')"
    using a by (simp add: Parameter_init_def Let_def)
  have p: "p = length (w_tasks w)"
    using Task_init_unfold [OF i] by blast
  have cls: "t_cls ?self = ParameterClass" "t_default ?self = dflt"
    "t_required ?self = (if dflt \<noteq> PNone then False else required)"
    by (simp_all add: new_object_def)
  from Task_init_task [OF i] obtain t where raw:
    "w_tasks w' = w_tasks w @ [t]
       \<and> t_cls t = t_cls ?self \<and> t_required t = t_required ?self
       \<and> t_default t = t_default ?self \<and> t_index t = t_index ?self
       \<and> t_name t = Some (str_or (Some name) (class_name (t_cls ?self)))
       \<and> t_tags t = length (w_colls w)
       \<and> t_group t = str_or None (context_get (c_group (ctx w)) [])
       \<and> (t_cls ?self = ParameterClass \<longrightarrow>
             Some name = Some (str_or (Some name) (class_name (t_cls ?self))))
       \<and> (t_cls ?self \<noteq> ParameterClass \<longrightarrow> t_slug t = Some name)"
    by (elim exE)
  have t: "w_tasks w' = w_tasks w @ [t]" "t_cls t = ParameterClass"
    "t_required t = (if dflt \<noteq> PNone then False else required)" "t_default t = dflt"
    using raw cls by simp_all
  have "str_or (Some name) (class_name (t_cls ?self)) = name"
    using raw cls(1) by (metis option.inject)
  then have nm: "t_name t = Some name" using raw by simp
  have nth: "w_tasks w' ! p = t" by (simp add: t(1) p)
  show "t_required (w_tasks w' ! p) = (if dflt \<noteq> PNone then False else required)"
    unfolding nth by (rule t(3))
  show "t_default (w_tasks w' ! p) = dflt"
    unfolding nth by (rule t(4))
  show "getattr_name (w_tasks w' ! p) = Inr name"
    unfolding nth using t(2) nm by (simp add: getattr_name_def Parameter_name_def)
  show "getattr_slug (w_tasks w' ! p) = Inr (Some name)"
    unfolding nth using t(2) nm
    by (simp add: getattr_slug_def Parameter_slug_def Parameter_name_def)
qed


text \<open>\<^verbatim>\<open>Parameter(name="n", default=5, required=True)\<close> in the empty store is not required.\<close>

theorem Parameter_init_required_witness:
  "\<exists>p w'. Parameter_init empty_world ''n'' (PInt 5) True = Inr (p, w')
      \<and> \<not> t_required (w_tasks w' ! p)
      \<and> t_default (w_tasks w' ! p) = PInt 5
      \<and> getattr_slug (w_tasks w' ! p) = Inr (Some ''n'')"
proof -
  note t = Parameter_init_required [of "''n''" empty_world "PInt 5" True]
  have "''n'' \<noteq> []" by simp
  with t [THEN conjunct1] obtain p w' where
    i: "Parameter_init empty_world ''n'' (PInt 5) True = Inr (p, w')"
    by blast
  note r = t [THEN conjunct2, THEN spec, THEN spec, THEN mp, OF i]
  have "\<not> t_required (w_tasks w' ! p)"
    using r [THEN conjunct1] by simp
  moreover have "t_default (w_tasks w' ! p) = PInt 5"
    using r [THEN conjunct2, THEN conjunct1] .
  moreover have "getattr_slug (w_tasks w' ! p) = Inr (Some ''n'')"
    using r [THEN conjunct2, THEN conjunct2, THEN conjunct2] .
  ultimately show ?thesis using i by blast
qed

section \<open>The claim about tags and group\<close>

lemma changes_frame:
  "list_all (older n) cs \<Longrightarrow> n < length (w_colls w) \<Longrightarrow>
     w_tasks (foldl change w cs) = w_tasks w
     \<and> length (w_colls (foldl change w cs)) = length (w_colls w)
     \<and> w_colls (foldl change w cs) ! n = w_colls w ! n"
proof (induction cs arbitrary: w)
  case Nil
  then show ?case by simp
next
  case (Cons c cs)
  have o: "older n c" and os: "list_all (older n) cs" using Cons.prems(1) by auto
  have step: "w_tasks (change w c) = w_tasks w \<and> length (w_colls (change w c)) = length (w_colls w)
      \<and> w_colls (change w c) ! n = w_colls w ! n"
    using o by (cases c) (auto simp: collection_assign_def context_assign_def)
  then have "n < length (w_colls (change w c))" using Cons.prems(2) by simp
  from Cons.IH [OF os this] step show ?case by simp
qed

lemma Task_init_succeeds:
  "t_cls self \<noteq> ParameterClass \<Longrightarrow>
     \<exists>p w'. Task_init w self name slug description grp tags mr rd tmo trig ps env cp = Inr (p, w')"
  by (cases "t_cls self")
    (simp_all add: Task_init_def Let_def setattr_name_def setattr_slug_def)

text \<open>
  Claim C8. The tags and the group of a task are fixed when it is constructed: the tag
  set is the union of the explicit tags and of the ambient tags read at construction, the
  group is the explicit group or else the ambient one, and no later mutation of the
  ambient collection (or of any collection that was in the store) and no new binding of
  the context changes them.
\<close>

theorem Task_init_snapshot:
  "Task_init w self name slug description grp tags max_retries retry_delay timeout trig
       propagate_skip environment checkpoint = Inr (p, w') \<Longrightarrow>
   ambient_valid w \<Longrightarrow>
     tags_of w' p = set (tag_list tags) \<union> ambient_tags w
   \<and> group_of w' p = str_or grp (context_get (c_group (ctx w)) [])
   \<and> (\<forall>cs. list_all (older (length (w_colls w))) cs \<longrightarrow>
          tags_of (foldl change w' cs) p = tags_of w' p
        \<and> group_of (foldl change w' cs) p = group_of w' p)"
proof -
  assume i: "Task_init w self name slug description grp tags max_retries retry_delay timeout trig
       propagate_skip environment checkpoint = Inr (p, w')"
    and v: "ambient_valid w"
  from Task_init_unfold [OF i] have p: "p = length (w_tasks w)"
    and colls: "w_colls w' = w_colls w @ [remdups (remdups (tag_list tags)
              @ (case c_tags (ctx w) of None \<Rightarrow> []
                 | Some a \<Rightarrow> (w_colls w @ [remdups (tag_list tags)]) ! a))]"
    by blast+
  from Task_init_task [OF i] obtain t where t: "w_tasks w' = w_tasks w @ [t]"
    "t_tags t = length (w_colls w)" "t_group t = str_or grp (context_get (c_group (ctx w)) [])"
    by blast
  have nth: "w_tasks w' ! p = t" by (simp add: t(1) p)
  have amb: "set (case c_tags (ctx w) of None \<Rightarrow> []
                 | Some a \<Rightarrow> (w_colls w @ [remdups (tag_list tags)]) ! a) = ambient_tags w"
    using v by (auto simp: ambient_valid_def ambient_tags_def nth_append split: option.splits)
  have tg: "tags_of w' p = set (tag_list tags) \<union> ambient_tags w"
    unfolding tags_of_def nth t(2) colls using amb by simp
  have gr: "group_of w' p = str_or grp (context_get (c_group (ctx w)) [])"
    unfolding group_of_def nth by (rule t(3))
  have fr: "tags_of (foldl change w' cs) p = tags_of w' p
        \<and> group_of (foldl change w' cs) p = group_of w' p"
    if "list_all (older (length (w_colls w))) cs" for cs
  proof -
    have "length (w_colls w) < length (w_colls w')" by (simp add: colls)
    from changes_frame [OF that this] show ?thesis
      by (simp add: tags_of_def group_of_def nth t(2))
  qed
  show ?thesis using tg gr fr by blast
qed

text \<open>
  The theorem at a task constructed with the tag \<open>c\<close> under the ambient tags \<open>a\<close> and
  \<open>b\<close>, after which the ambient collection becomes \<open>[z]\<close> and the context is emptied.
\<close>

theorem Task_init_snapshot_witness:
  "ambient_valid world_tags
   \<and> (\<exists>p w'. Task_init world_tags (new_object (TaskClass ''T'' [])) None None None None
                 (TagList [''c'']) 0 60 None None False None False = Inr (p, w')
        \<and> tags_of w' p = {''c'', ''a'', ''b''}
        \<and> group_of w' p = ''g''
        \<and> tags_of (foldl change w' [MutateCollection 0 [''z''], RebindContext empty_context]) p
             = {''c'', ''a'', ''b''})"
proof -
  have v: "ambient_valid world_tags"
    by (simp add: ambient_valid_def world_tags_def)
  have "t_cls (new_object (TaskClass ''T'' [])) \<noteq> ParameterClass"
    by (simp add: new_object_def)
  from Task_init_succeeds [OF this] obtain p w' where
    i: "Task_init world_tags (new_object (TaskClass ''T'' [])) None None None None
                 (TagList [''c'']) 0 60 None None False None False = Inr (p, w')"
    by blast
  note t = Task_init_snapshot [OF i v]
  have a: "ambient_tags world_tags = {''a'', ''b''}"
    by (simp add: ambient_tags_def world_tags_def)
  have g: "str_or None (context_get (c_group (ctx world_tags)) []) = ''g''"
    by (simp add: str_or_def context_get_def world_tags_def)
  have o: "list_all (older (length (w_colls world_tags)))
             [MutateCollection 0 [''z''], RebindContext empty_context]"
    by (simp add: world_tags_def)
  have 1: "tags_of w' p = {''c'', ''a'', ''b''}"
    using t [THEN conjunct1] a by auto
  have 2: "group_of w' p = ''g''"
    using t [THEN conjunct2, THEN conjunct1] g by simp
  have 3: "tags_of (foldl change w' [MutateCollection 0 [''z''], RebindContext empty_context]) p
             = {''c'', ''a'', ''b''}"
    using t [THEN conjunct2, THEN conjunct2, THEN spec, THEN mp, OF o, THEN conjunct1] 1
    by (rule trans)
  show ?thesis using v i 1 2 3 by blast
qed

section \<open>Properties of the flows\<close>

lemma add_edge_tasks [simp]: "f_tasks (add_edge fl e) = f_tasks fl"
  by (simp add: add_edge_def)

lemma add_edge_edges: "set (f_edges (add_edge fl e)) = insert e (set (f_edges fl))"
  by (auto simp: add_edge_def)

lemma add_edges_tasks [simp]: "f_tasks (add_edges fl es) = f_tasks fl"
  unfolding add_edges_def by (induction es arbitrary: fl) simp_all

lemma add_edges_edges: "set (f_edges (add_edges fl es)) = set (f_edges fl) \<union> set es"
  unfolding add_edges_def by (induction es arbitrary: fl) (auto simp: add_edge_edges)

lemma add_task_edges [simp]: "f_edges (add_task fl t) = f_edges fl"
  by (simp add: add_task_def)

lemma add_task_member: "t \<in> set (f_tasks (add_task fl t))"
  by (simp add: add_task_def)

lemma add_task_set: "set (f_tasks (add_task fl t)) = insert t (set (f_tasks fl))"
  by (auto simp: add_task_def)

lemma add_task_idem: "add_task (add_task fl t) t = add_task fl t"
  by (simp add: add_task_def)

lemma add_task_present: "t \<in> set (f_tasks fl) \<Longrightarrow> add_task fl t = fl"
  by (simp add: add_task_def)

lemma add_task_count:
  "count_list (f_tasks (add_task fl t)) t \<le> Suc (count_list (f_tasks fl) t)"
  by (simp add: add_task_def)

lemma Flow_new_simps [simp]:
  "fst (Flow_new w) = length (w_flows w)"
  "ctx (snd (Flow_new w)) = ctx w"
  "w_tasks (snd (Flow_new w)) = w_tasks w"
  "w_colls (snd (Flow_new w)) = w_colls w"
  "w_results (snd (Flow_new w)) = w_results w"
  "w_flows (snd (Flow_new w)) = w_flows w @ [\<lparr>f_tasks = [], f_edges = []\<rparr>]"
  by (simp_all add: Flow_new_def)

lemma TaskResult_init_Some:
  "TaskResult_init w task (Some flow) =
     (\<lparr>tr_id = w_results w, tr_task = task, tr_flow = flow\<rparr>,
      (Flow_add_task w flow task)\<lparr>w_results := Suc (w_results w)\<rparr>)"
  by (simp add: TaskResult_init_def Flow_add_task_def)

lemma TaskResult_init_None:
  "TaskResult_init w task None =
     (\<lparr>tr_id = w_results w, tr_task = task, tr_flow = length (w_flows w)\<rparr>,
      (Flow_add_task (snd (Flow_new w)) (length (w_flows w)) task)\<lparr>w_results := Suc (w_results w)\<rparr>)"
  by (simp add: TaskResult_init_def Flow_add_task_def Flow_new_def)

text \<open>What a successful edge creation leaves.\<close>

lemma Flow_set_dependencies_result:
  assumes "Flow_set_dependencies w flow task ups downs kws validate = Inr (r, w')"
  shows "r = \<lparr>tr_id = w_results w, tr_task = task, tr_flow = flow\<rparr>"
    and "ctx w' = ctx w" and "w_tasks w' = w_tasks w" and "w_colls w' = w_colls w"
    and "w_results w' = Suc (w_results w)"
    and "length (w_flows w') = length (w_flows w)"
    and "g \<noteq> flow \<Longrightarrow> w_flows w' ! g = w_flows w ! g"
    and "flow < length (w_flows w) \<Longrightarrow>
           w_flows w' ! flow
             = add_edges (add_task (w_flows w ! flow) task) (dependency_edges task ups downs kws)"
  using assms
  by (auto simp: Flow_set_dependencies_def TaskResult_init_Some Let_def split: if_splits)

lemma Task_set_dependencies_eq:
  "Task_set_dependencies w self flow ups downs kws validate =
     (case flow of
        Some f \<Rightarrow> Flow_set_dependencies w f self ups downs kws validate
      | None \<Rightarrow> Flow_set_dependencies (snd (Flow_new w)) (resolved_flow w) self ups downs kws validate)"
  by (auto simp: Task_set_dependencies_def resolved_flow_def context_get_def Flow_new_def Let_def
        split: option.splits)

lemma Task_call_eq:
  "\<not> named_again kwargs \<Longrightarrow>
   Task_call w self args ups kwargs =
     (case Task_callargs (run_signature (t_cls (w_tasks w ! self))) args kwargs of
        Inl e \<Rightarrow> Inl e
      | Inr ca \<Rightarrow>
          Flow_set_dependencies (snd (Flow_new w)) (resolved_flow w) self ups None
            (Some (keyword_results_of ca)) True)"
  by (auto simp: Task_call_def named_again_def Task_set_dependencies_eq resolved_flow_def
        context_get_def Flow_new_def Let_def split: sum.splits option.splits)

lemma Task_call_named_again:
  "named_again kwargs \<Longrightarrow> \<exists>m. Task_call w self args ups kwargs = Inl (TypeError m)"
  by (auto simp: Task_call_def named_again_def)

lemma Task_call_Inr:
  assumes "Task_call w self args ups kwargs = Inr (r, w')"
  shows "\<not> named_again kwargs"
    and "\<exists>ca. Task_callargs (run_signature (t_cls (w_tasks w ! self))) args kwargs = Inr ca
           \<and> bind (run_signature (t_cls (w_tasks w ! self))) args kwargs = Inr (keyword_results_of ca)
           \<and> Flow_set_dependencies (snd (Flow_new w)) (resolved_flow w) self ups None
                (Some (keyword_results_of ca)) True = Inr (r, w')"
proof -
  show n: "\<not> named_again kwargs"
    using assms Task_call_named_again [of kwargs w self args ups] by auto
  from assms obtain ca where
    ca: "Task_callargs (run_signature (t_cls (w_tasks w ! self))) args kwargs = Inr ca"
    and f: "Flow_set_dependencies (snd (Flow_new w)) (resolved_flow w) self ups None
                (Some (keyword_results_of ca)) True = Inr (r, w')"
    unfolding Task_call_eq [OF n] by (auto split: sum.splits)
  from ca f Task_callargs_Inr [OF ca]
  show "\<exists>ca. Task_callargs (run_signature (t_cls (w_tasks w ! self))) args kwargs = Inr ca
           \<and> bind (run_signature (t_cls (w_tasks w ! self))) args kwargs = Inr (keyword_results_of ca)
           \<and> Flow_set_dependencies (snd (Flow_new w)) (resolved_flow w) self ups None
                (Some (keyword_results_of ca)) True = Inr (r, w')"
    by blast
qed

lemma flow_valid_cong: "w_tasks w = w_tasks w' \<Longrightarrow> flow_valid w fl = flow_valid w' fl"
  by (simp add: flow_valid_def slugs_def)

text \<open>Edge creation in a flow of the store, in one equation.\<close>

lemma Flow_set_dependencies_eq:
  assumes "flow < length (w_flows w)"
  shows "Flow_set_dependencies w flow task ups downs kws validate =
     (if validate \<and> \<not> flow_valid w (add_edges (add_task (w_flows w ! flow) task)
                                      (dependency_edges task ups downs kws))
        then Inl (ValueError ''the flow rejects the dependencies'')
      else Inr (\<lparr>tr_id = w_results w, tr_task = task, tr_flow = flow\<rparr>,
                w\<lparr>w_flows := (w_flows w)[flow := add_edges (add_task (w_flows w ! flow) task)
                                                   (dependency_edges task ups downs kws)],
                   w_results := Suc (w_results w)\<rparr>))"
proof -
  let ?F = "add_edges (add_task (w_flows w ! flow) task) (dependency_edges task ups downs kws)"
  let ?w2 = "(Flow_add_task w flow task)\<lparr>w_results := Suc (w_results w)\<rparr>"
  let ?w3 = "?w2\<lparr>w_flows := (w_flows ?w2)[flow := add_edges (w_flows ?w2 ! flow)
                 (dependency_edges task ups downs kws)]\<rparr>"
  have nth: "w_flows ?w3 ! flow = ?F" using assms by simp
  have eq: "?w3 = w\<lparr>w_flows := (w_flows w)[flow := ?F], w_results := Suc (w_results w)\<rparr>"
    using assms by (simp add: Flow_add_task_def)
  have v: "flow_valid ?w3 ?F = flow_valid w ?F"
    by (rule flow_valid_cong) simp
  have A: "Flow_set_dependencies w flow task ups downs kws validate =
          (if validate \<and> \<not> flow_valid ?w3 (w_flows ?w3 ! flow)
             then Inl (ValueError ''the flow rejects the dependencies'')
           else Inr (\<lparr>tr_id = w_results w, tr_task = task, tr_flow = flow\<rparr>, ?w3))"
    by (simp add: Flow_set_dependencies_def TaskResult_init_Some Let_def)
  have B: "flow_valid ?w3 (w_flows ?w3 ! flow) = flow_valid w ?F"
    by (simp only: nth v)
  show ?thesis
    by (simp only: A B) (simp only: eq)
qed

lemma resolved_flow_valid:
  "ambient_flow_valid w \<Longrightarrow> resolved_flow w < length (w_flows (snd (Flow_new w)))"
  by (auto simp: ambient_flow_valid_def resolved_flow_def split: option.splits)

lemma resolved_flow_nth:
  "ambient_flow_valid w \<Longrightarrow>
     w_flows (snd (Flow_new w)) ! resolved_flow w
       = (case c_flow (ctx w) of None \<Rightarrow> \<lparr>f_tasks = [], f_edges = []\<rparr> | Some g \<Rightarrow> w_flows w ! g)"
  by (auto simp: ambient_flow_valid_def resolved_flow_def nth_append split: option.splits)


lemma Flow_set_dependencies_fails:
  "Flow_set_dependencies w flow task ups downs kws validate = Inl e \<Longrightarrow>
     validate \<and> (\<exists>m. e = ValueError m)"
  by (auto simp: Flow_set_dependencies_def Let_def split: prod.splits if_splits)

lemma flow_valid_single: "flow_valid w \<lparr>f_tasks = [t], f_edges = []\<rparr>"
  by (simp add: flow_valid_def has_cycle_def slugs_def split: sum.splits option.splits)

lemma Flow_set_dependencies_fresh:
  assumes "dependency_edges task ups downs kws = []"
  shows "\<exists>r w'. Flow_set_dependencies (snd (Flow_new w)) (length (w_flows w)) task ups downs kws validate
            = Inr (r, w')
          \<and> f_tasks (w_flows w' ! tr_flow r) = [task]"
  using assms flow_valid_single
  by (simp add: Flow_set_dependencies_def TaskResult_init_Some Let_def add_edges_def add_task_def)

lemma flow_valid_no_edges:
  "f_edges fl = [] \<Longrightarrow> distinct (slugs w fl) \<Longrightarrow> flow_valid w fl"
  by (simp add: flow_valid_def has_cycle_def)

lemma Task_call_result:
  assumes "Task_call w self args ups kwargs = Inr (r, w')" and "ambient_flow_valid w"
  shows "r = \<lparr>tr_id = w_results w, tr_task = self, tr_flow = resolved_flow w\<rparr>"
    and "ctx w' = ctx w" and "w_tasks w' = w_tasks w" and "w_colls w' = w_colls w"
    and "w_results w' = Suc (w_results w)"
    and "length (w_flows w') = Suc (length (w_flows w))"
    and "\<exists>a. bind (run_signature (t_cls (w_tasks w ! self))) args kwargs = Inr a
           \<and> w_flows w' ! resolved_flow w
               = add_edges (add_task (ambient_flow w) self) (dependency_edges self ups None (Some a))"
    and "g < length (w_flows w) \<Longrightarrow> g \<noteq> resolved_flow w \<Longrightarrow> w_flows w' ! g = w_flows w ! g"
proof -
  from Task_call_Inr(2) [OF assms(1)] obtain a where
    b: "bind (run_signature (t_cls (w_tasks w ! self))) args kwargs = Inr a"
    and f: "Flow_set_dependencies (snd (Flow_new w)) (resolved_flow w) self ups None (Some a) True
              = Inr (r, w')"
    by blast
  note res = Flow_set_dependencies_result [OF f]
  show "r = \<lparr>tr_id = w_results w, tr_task = self, tr_flow = resolved_flow w\<rparr>"
    using res(1) by simp
  show "ctx w' = ctx w" "w_tasks w' = w_tasks w" "w_colls w' = w_colls w"
    "w_results w' = Suc (w_results w)" "length (w_flows w') = Suc (length (w_flows w))"
    using res(2-6) by simp_all
  have "w_flows w' ! resolved_flow w
          = add_edges (add_task (ambient_flow w) self) (dependency_edges self ups None (Some a))"
    using res(8) [OF resolved_flow_valid [OF assms(2)]] resolved_flow_nth [OF assms(2)]
    by (simp add: ambient_flow_def)
  with b show "\<exists>a. bind (run_signature (t_cls (w_tasks w ! self))) args kwargs = Inr a
           \<and> w_flows w' ! resolved_flow w
               = add_edges (add_task (ambient_flow w) self) (dependency_edges self ups None (Some a))"
    by blast
  show "w_flows w' ! g = w_flows w ! g" if "g < length (w_flows w)" "g \<noteq> resolved_flow w"
    using res(7) [OF that(2)] that(1) by (simp add: nth_append)
qed

lemma Flow_set_dependencies_succeeds:
  assumes "flow < length (w_flows w)"
    and "flow_valid w (add_edges (add_task (w_flows w ! flow) task) (dependency_edges task ups downs kws))"
  shows "\<exists>r w'. Flow_set_dependencies w flow task ups downs kws validate = Inr (r, w')"
proof -
  let ?w2 = "(Flow_add_task w flow task)\<lparr>w_results := Suc (w_results w)\<rparr>"
  let ?w3 = "?w2\<lparr>w_flows := (w_flows ?w2)[flow := add_edges (w_flows ?w2 ! flow)
                 (dependency_edges task ups downs kws)]\<rparr>"
  have "w_flows ?w3 ! flow
          = add_edges (add_task (w_flows w ! flow) task) (dependency_edges task ups downs kws)"
    using assms(1) by simp
  moreover have "w_tasks ?w3 = w_tasks w" by simp
  ultimately have "flow_valid ?w3 (w_flows ?w3 ! flow)"
    using assms(2) flow_valid_cong [of ?w3 w] by simp
  then show ?thesis
    by (simp add: Flow_set_dependencies_def TaskResult_init_Some Let_def)
qed

lemma Task_call_succeeds:
  assumes "bind (run_signature (t_cls (w_tasks w ! self))) args kwargs = Inr a"
    and "ambient_flow_valid w"
    and "flow_valid w (add_edges (add_task (ambient_flow w) self)
           (dependency_edges self ups None (Some a)))"
    and "\<not> named_again kwargs"
    and "hashable_signature (run_signature (t_cls (w_tasks w ! self)))"
  shows "\<exists>r w'. Task_call w self args ups kwargs = Inr (r, w')"
proof -
  let ?w1 = "snd (Flow_new w)"
  have "flow_valid ?w1 (add_edges (add_task (w_flows ?w1 ! resolved_flow w) self)
           (dependency_edges self ups None (Some a)))"
    using assms(3) resolved_flow_nth [OF assms(2)] flow_valid_cong [of ?w1 w]
    by (simp add: ambient_flow_def)
  from Flow_set_dependencies_succeeds [OF resolved_flow_valid [OF assms(2)] this]
  show ?thesis
    by (simp add: Task_call_eq [OF assms(4)] Task_callargs_hashable [OF assms(5)] assms(1)
          keyword_results_of_KStr)
qed

lemma Flow_set_dependencies_new:
  "Flow_set_dependencies (snd (Flow_new w)) (length (w_flows w)) task ups downs kws validate =
     (if validate \<and> \<not> flow_valid w (add_edges \<lparr>f_tasks = [task], f_edges = []\<rparr>
                                      (dependency_edges task ups downs kws))
        then Inl (ValueError ''the flow rejects the dependencies'')
      else Inr (\<lparr>tr_id = w_results w, tr_task = task, tr_flow = length (w_flows w)\<rparr>,
                w\<lparr>w_flows := w_flows w @ [add_edges \<lparr>f_tasks = [task], f_edges = []\<rparr>
                                                (dependency_edges task ups downs kws)],
                   w_results := Suc (w_results w)\<rparr>))"
proof -
  have l: "length (w_flows w) < length (w_flows (snd (Flow_new w)))" by simp
  have a: "add_task (w_flows (snd (Flow_new w)) ! length (w_flows w)) task
             = \<lparr>f_tasks = [task], f_edges = []\<rparr>"
    by (simp add: add_task_def)
  have v: "flow_valid (snd (Flow_new w)) fl = flow_valid w fl" for fl
    by (rule flow_valid_cong) simp
  show ?thesis
    unfolding Flow_set_dependencies_eq [OF l] a v
    by (simp add: Flow_new_def)
qed

section \<open>The claims about flows and results\<close>

text \<open>
  Claim C6. When a task is invoked or \<^verbatim>\<open>set_dependencies\<close> is called, the owning flow is
  the explicit \<^verbatim>\<open>flow\<close> argument if one is given (an invocation has none), else the
  ambient flow of the context, else a freshly constructed empty flow, and the call is the
  flow's edge creation in that flow; an invocation constructs the new flow in either case.
  The resolution has no failure of its own: \<^verbatim>\<open>set_dependencies\<close> fails only when the
  flow's validation rejects the dependencies, an invocation only then or before, when its
  arguments are not bound. With no ambient flow, the call returns exactly when the new
  flow with this task and its dependency edges is valid, and the result is in that flow.
\<close>

theorem flow_resolution:
  "(\<forall>r w'. Task_set_dependencies w self flow ups downs kws validate = Inr (r, w') \<longrightarrow>
        tr_task r = self
      \<and> tr_flow r = (case flow of
                       Some f \<Rightarrow> f
                     | None \<Rightarrow> (case c_flow (ctx w) of Some g \<Rightarrow> g | None \<Rightarrow> fst (Flow_new w))))
   \<and> (\<forall>r w'. Task_call w self args ups kwargs = Inr (r, w') \<longrightarrow>
        tr_task r = self
      \<and> tr_flow r = (case c_flow (ctx w) of Some g \<Rightarrow> g | None \<Rightarrow> fst (Flow_new w))
      \<and> length (w_flows w') = Suc (length (w_flows w)))
   \<and> w_flows (snd (Flow_new w)) ! fst (Flow_new w) = \<lparr>f_tasks = [], f_edges = []\<rparr>
   \<and> Task_set_dependencies w self flow ups downs kws validate =
        Flow_set_dependencies (case flow of Some f \<Rightarrow> w | None \<Rightarrow> snd (Flow_new w))
          (case flow of
             Some f \<Rightarrow> f
           | None \<Rightarrow> (case c_flow (ctx w) of Some g \<Rightarrow> g | None \<Rightarrow> fst (Flow_new w)))
          self ups downs kws validate
   \<and> (\<forall>ca. \<not> named_again kwargs
          \<and> Task_callargs (run_signature (t_cls (w_tasks w ! self))) args kwargs = Inr ca \<longrightarrow>
          Task_call w self args ups kwargs =
            Flow_set_dependencies (snd (Flow_new w))
              (case c_flow (ctx w) of Some g \<Rightarrow> g | None \<Rightarrow> fst (Flow_new w))
              self ups None (Some (keyword_results_of ca)) True)
   \<and> (\<forall>e. Task_set_dependencies w self flow ups downs kws validate = Inl e \<longrightarrow>
          validate \<and> (\<exists>m. e = ValueError m))
   \<and> (\<forall>e. Task_call w self args ups kwargs = Inl e \<longrightarrow>
          named_again kwargs
          \<or> Task_callargs (run_signature (t_cls (w_tasks w ! self))) args kwargs = Inl e
          \<or> (\<exists>m. e = ValueError m))
   \<and> (c_flow (ctx w) = None \<longrightarrow>
        ((\<exists>r w'. Task_set_dependencies w self None ups downs kws validate = Inr (r, w'))
           \<longleftrightarrow> (validate \<longrightarrow> flow_valid w (add_edges \<lparr>f_tasks = [self], f_edges = []\<rparr>
                                               (dependency_edges self ups downs kws))))
      \<and> (\<forall>r w'. Task_set_dependencies w self None ups downs kws validate = Inr (r, w') \<longrightarrow>
            tr_flow r = fst (Flow_new w)
          \<and> w_flows w' ! tr_flow r
               = add_edges \<lparr>f_tasks = [self], f_edges = []\<rparr> (dependency_edges self ups downs kws))
      \<and> (\<forall>ca. \<not> named_again kwargs
             \<and> Task_callargs (run_signature (t_cls (w_tasks w ! self))) args kwargs = Inr ca \<longrightarrow>
             ((\<exists>r w'. Task_call w self args ups kwargs = Inr (r, w'))
                \<longleftrightarrow> flow_valid w (add_edges \<lparr>f_tasks = [self], f_edges = []\<rparr>
                                   (dependency_edges self ups None (Some (keyword_results_of ca)))))
           \<and> (\<forall>r w'. Task_call w self args ups kwargs = Inr (r, w') \<longrightarrow>
                  tr_flow r = fst (Flow_new w)
                \<and> w_flows w' ! tr_flow r
                     = add_edges \<lparr>f_tasks = [self], f_edges = []\<rparr>
                         (dependency_edges self ups None (Some (keyword_results_of ca))))))"
proof -
  let ?sig = "run_signature (t_cls (w_tasks w ! self))"
  let ?rf = "case c_flow (ctx w) of Some g \<Rightarrow> g | None \<Rightarrow> fst (Flow_new w)"
  have rf: "resolved_flow w = ?rf"
    by (simp add: resolved_flow_def split: option.splits)
  have D1: "Task_set_dependencies w self flow ups downs kws validate =
        Flow_set_dependencies (case flow of Some f \<Rightarrow> w | None \<Rightarrow> snd (Flow_new w))
          (case flow of Some f \<Rightarrow> f | None \<Rightarrow> ?rf) self ups downs kws validate"
    by (simp add: Task_set_dependencies_eq rf split: option.splits)
  have D2: "Task_call w self args ups kwargs =
            Flow_set_dependencies (snd (Flow_new w)) ?rf self ups None
              (Some (keyword_results_of ca)) True"
    if "\<not> named_again kwargs \<and> Task_callargs ?sig args kwargs = Inr ca" for ca
    using that by (simp add: Task_call_eq rf)
  have C1: "tr_task r = self \<and> tr_flow r = (case flow of Some f \<Rightarrow> f | None \<Rightarrow> ?rf)"
    if "Task_set_dependencies w self flow ups downs kws validate = Inr (r, w')" for r w'
    using that Flow_set_dependencies_result(1) unfolding D1 by fastforce
  have C2: "tr_task r = self \<and> tr_flow r = ?rf \<and> length (w_flows w') = Suc (length (w_flows w))"
    if "Task_call w self args ups kwargs = Inr (r, w')" for r w'
  proof -
    from Task_call_Inr(2) [OF that] obtain ca where
      f: "Flow_set_dependencies (snd (Flow_new w)) (resolved_flow w) self ups None
                (Some (keyword_results_of ca)) True = Inr (r, w')"
      by blast
    from Flow_set_dependencies_result(1,6) [OF f] show ?thesis by (simp add: rf)
  qed
  have C3: "w_flows (snd (Flow_new w)) ! fst (Flow_new w) = \<lparr>f_tasks = [], f_edges = []\<rparr>"
    by simp
  have E1: "validate \<and> (\<exists>m. e = ValueError m)"
    if "Task_set_dependencies w self flow ups downs kws validate = Inl e" for e
    using that unfolding D1 by (rule Flow_set_dependencies_fails)
  have E2: "named_again kwargs \<or> Task_callargs ?sig args kwargs = Inl e \<or> (\<exists>m. e = ValueError m)"
    if "Task_call w self args ups kwargs = Inl e" for e
  proof (cases "named_again kwargs")
    case True
    then show ?thesis by simp
  next
    case False
    show ?thesis
    proof (cases "Task_callargs ?sig args kwargs")
      case (Inl e')
      then show ?thesis using that by (simp add: Task_call_eq [OF False])
    next
      case (Inr ca)
      then show ?thesis
        using that Flow_set_dependencies_fails by (fastforce simp: Task_call_eq [OF False])
    qed
  qed
  have N: "c_flow (ctx w) = None \<longrightarrow>
        ((\<exists>r w'. Task_set_dependencies w self None ups downs kws validate = Inr (r, w'))
           \<longleftrightarrow> (validate \<longrightarrow> flow_valid w (add_edges \<lparr>f_tasks = [self], f_edges = []\<rparr>
                                               (dependency_edges self ups downs kws))))
      \<and> (\<forall>r w'. Task_set_dependencies w self None ups downs kws validate = Inr (r, w') \<longrightarrow>
            tr_flow r = fst (Flow_new w)
          \<and> w_flows w' ! tr_flow r
               = add_edges \<lparr>f_tasks = [self], f_edges = []\<rparr> (dependency_edges self ups downs kws))
      \<and> (\<forall>ca. \<not> named_again kwargs
             \<and> Task_callargs ?sig args kwargs = Inr ca \<longrightarrow>
             ((\<exists>r w'. Task_call w self args ups kwargs = Inr (r, w'))
                \<longleftrightarrow> flow_valid w (add_edges \<lparr>f_tasks = [self], f_edges = []\<rparr>
                                   (dependency_edges self ups None (Some (keyword_results_of ca)))))
           \<and> (\<forall>r w'. Task_call w self args ups kwargs = Inr (r, w') \<longrightarrow>
                  tr_flow r = fst (Flow_new w)
                \<and> w_flows w' ! tr_flow r
                     = add_edges \<lparr>f_tasks = [self], f_edges = []\<rparr>
                         (dependency_edges self ups None (Some (keyword_results_of ca)))))"
  proof
    assume none: "c_flow (ctx w) = None"
    then have r0: "resolved_flow w = length (w_flows w)" by (simp add: resolved_flow_def)
    have S: "Task_set_dependencies w self None ups downs kws validate =
               Flow_set_dependencies (snd (Flow_new w)) (length (w_flows w)) self ups downs kws validate"
      by (simp add: Task_set_dependencies_eq r0)
    have T: "Task_call w self args ups kwargs =
               Flow_set_dependencies (snd (Flow_new w)) (length (w_flows w)) self ups None
                 (Some (keyword_results_of ca)) True"
      if "\<not> named_again kwargs \<and> Task_callargs ?sig args kwargs = Inr ca" for ca
      using that by (simp add: Task_call_eq r0)
    show "((\<exists>r w'. Task_set_dependencies w self None ups downs kws validate = Inr (r, w'))
           \<longleftrightarrow> (validate \<longrightarrow> flow_valid w (add_edges \<lparr>f_tasks = [self], f_edges = []\<rparr>
                                               (dependency_edges self ups downs kws))))
      \<and> (\<forall>r w'. Task_set_dependencies w self None ups downs kws validate = Inr (r, w') \<longrightarrow>
            tr_flow r = fst (Flow_new w)
          \<and> w_flows w' ! tr_flow r
               = add_edges \<lparr>f_tasks = [self], f_edges = []\<rparr> (dependency_edges self ups downs kws))
      \<and> (\<forall>ca. \<not> named_again kwargs
             \<and> Task_callargs ?sig args kwargs = Inr ca \<longrightarrow>
             ((\<exists>r w'. Task_call w self args ups kwargs = Inr (r, w'))
                \<longleftrightarrow> flow_valid w (add_edges \<lparr>f_tasks = [self], f_edges = []\<rparr>
                                   (dependency_edges self ups None (Some (keyword_results_of ca)))))
           \<and> (\<forall>r w'. Task_call w self args ups kwargs = Inr (r, w') \<longrightarrow>
                  tr_flow r = fst (Flow_new w)
                \<and> w_flows w' ! tr_flow r
                     = add_edges \<lparr>f_tasks = [self], f_edges = []\<rparr>
                         (dependency_edges self ups None (Some (keyword_results_of ca)))))"
    proof (intro conjI allI impI)
      show "(\<exists>r w'. Task_set_dependencies w self None ups downs kws validate = Inr (r, w'))
           \<longleftrightarrow> (validate \<longrightarrow> flow_valid w (add_edges \<lparr>f_tasks = [self], f_edges = []\<rparr>
                                               (dependency_edges self ups downs kws)))"
        unfolding S Flow_set_dependencies_new by simp
    next
      fix r w'
      assume "Task_set_dependencies w self None ups downs kws validate = Inr (r, w')"
      then show "tr_flow r = fst (Flow_new w)"
        and "w_flows w' ! tr_flow r
               = add_edges \<lparr>f_tasks = [self], f_edges = []\<rparr> (dependency_edges self ups downs kws)"
        unfolding S Flow_set_dependencies_new by (auto split: if_splits)
    next
      fix ca
      assume a: "\<not> named_again kwargs \<and> Task_callargs ?sig args kwargs = Inr ca"
      show "(\<exists>r w'. Task_call w self args ups kwargs = Inr (r, w'))
                \<longleftrightarrow> flow_valid w (add_edges \<lparr>f_tasks = [self], f_edges = []\<rparr>
                                   (dependency_edges self ups None (Some (keyword_results_of ca))))"
        unfolding T [OF a] Flow_set_dependencies_new by simp
    next
      fix ca r w'
      assume a: "\<not> named_again kwargs \<and> Task_callargs ?sig args kwargs = Inr ca"
        and c: "Task_call w self args ups kwargs = Inr (r, w')"
      from c show "tr_flow r = fst (Flow_new w)"
        and "w_flows w' ! tr_flow r
                     = add_edges \<lparr>f_tasks = [self], f_edges = []\<rparr>
                         (dependency_edges self ups None (Some (keyword_results_of ca)))"
        unfolding T [OF a] Flow_set_dependencies_new by (auto split: if_splits)
    qed
  qed
  show ?thesis
    using C1 C2 C3 D1 D2 E1 E2 N by (intro conjI allI impI) blast+
qed

text \<open>
  The theorem at the task \<open>T\<close>: under the ambient flow 0 the result is in flow 0, for
  \<^verbatim>\<open>set_dependencies\<close> and for \<^verbatim>\<open>T(5)\<close>; with no ambient flow both return a result in
  the new flow at address 1, which holds \<open>T\<close> alone.
\<close>

theorem flow_resolution_witness:
  "(\<exists>r w'. Task_set_dependencies world_T 0 None None None None True = Inr (r, w') \<and> tr_flow r = 0)
   \<and> (\<exists>r w'. Task_set_dependencies world_T_alone 0 None None None None True = Inr (r, w')
         \<and> tr_flow r = 1 \<and> w_flows w' ! 1 = \<lparr>f_tasks = [0], f_edges = []\<rparr>)
   \<and> (\<exists>r w'. Task_call world_T 0 [PInt 5] None [] = Inr (r, w') \<and> tr_flow r = 0
         \<and> length (w_flows w') = 2)
   \<and> (\<exists>r w'. Task_call world_T_alone 0 [PInt 5] None [] = Inr (r, w')
         \<and> tr_flow r = 1 \<and> w_flows w' ! 1 = \<lparr>f_tasks = [0], f_edges = []\<rparr>
         \<and> length (w_flows w') = 2)"
proof (intro conjI)
  have c: "c_flow (ctx world_T) = Some 0"
    by (simp add: world_T_def empty_context_def)
  have "\<exists>r w'. Task_set_dependencies world_T 0 None None None None True = Inr (r, w')"
    by (simp add: Task_set_dependencies_eq Flow_set_dependencies_def TaskResult_init_Some
          resolved_flow_def dependency_edges_def iterable_def add_edges_def add_task_def
          flow_valid_def has_cycle_def slugs_def getattr_slug_def
          world_T_def empty_context_def new_object_def Flow_new_def)
  then obtain r w' where a: "Task_set_dependencies world_T 0 None None None None True = Inr (r, w')"
    by blast
  from flow_resolution [of world_T 0 None None None None True, THEN conjunct1, THEN spec, THEN spec,
      THEN mp, OF a] c
  have "tr_flow r = 0" by simp
  with a show "\<exists>r w'. Task_set_dependencies world_T 0 None None None None True = Inr (r, w')
      \<and> tr_flow r = 0" by blast
next
  have c: "c_flow (ctx world_T_alone) = None"
    by (simp add: world_T_alone_def empty_context_def)
  have d: "dependency_edges 0 None None None = []"
    by (simp add: dependency_edges_def iterable_def)
  have f: "fst (Flow_new world_T_alone) = 1"
    by (simp add: Flow_new_def world_T_alone_def world_T_def)
  note n = flow_resolution [of world_T_alone 0 None None None None True,
      THEN conjunct2, THEN conjunct2, THEN conjunct2, THEN conjunct2, THEN conjunct2,
      THEN conjunct2, THEN conjunct2, THEN mp, OF c]
  have "flow_valid world_T_alone (add_edges \<lparr>f_tasks = [0], f_edges = []\<rparr>
           (dependency_edges 0 None None None))"
    unfolding d by (simp add: add_edges_def flow_valid_single)
  with n [THEN conjunct1] obtain r w' where
    a: "Task_set_dependencies world_T_alone 0 None None None None True = Inr (r, w')"
    by blast
  from n [THEN conjunct2, THEN conjunct1, THEN spec, THEN spec, THEN mp, OF a]
  have "tr_flow r = 1 \<and> w_flows w' ! 1 = \<lparr>f_tasks = [0], f_edges = []\<rparr>"
    unfolding d f by (auto simp: add_edges_def)
  with a show "\<exists>r w'. Task_set_dependencies world_T_alone 0 None None None None True = Inr (r, w')
         \<and> tr_flow r = 1 \<and> w_flows w' ! 1 = \<lparr>f_tasks = [0], f_edges = []\<rparr>"
    by blast
next
  have c: "c_flow (ctx world_T) = Some 0" and l: "length (w_flows world_T) = 1"
    and f0: "w_flows world_T ! 0 = \<lparr>f_tasks = [0], f_edges = []\<rparr>"
    by (simp_all add: world_T_def empty_context_def)
  have sg: "run_signature (t_cls (w_tasks world_T ! 0)) = sig_a_b"
    by (simp add: world_T_def new_object_def)
  have b: "bind (run_signature (t_cls (w_tasks world_T ! 0))) [PInt 5] [] = Inr [(''a'', PInt 5)]"
    unfolding sg by (simp add: sig_a_b_def bind_def bind_rest_def keys_def)
  have v: "ambient_flow_valid world_T"
    using c l by (simp add: ambient_flow_valid_def)
  have af: "ambient_flow world_T = \<lparr>f_tasks = [0], f_edges = []\<rparr>"
    using c f0 by (simp add: ambient_flow_def)
  have ok: "flow_valid world_T (add_edges (add_task (ambient_flow world_T) 0)
           (dependency_edges 0 None None (Some [(''a'', PInt 5)])))"
    unfolding af
    by (simp add: dependency_edges_def iterable_def add_edges_def add_task_def flow_valid_single)
  have na: "\<not> named_again []" by (simp add: named_again_def keys_def)
  have hs: "hashable_signature (run_signature (t_cls (w_tasks world_T ! 0)))"
    unfolding sg by (simp add: hashable_signature_def sig_a_b_def)
  from Task_call_succeeds [OF b v ok na hs] obtain r w' where
    a: "Task_call world_T 0 [PInt 5] None [] = Inr (r, w')"
    by blast
  from flow_resolution [of world_T 0 None None None None True "[PInt 5]" "[]",
      THEN conjunct2, THEN conjunct1, THEN spec, THEN spec, THEN mp, OF a] c l
  have "tr_flow r = 0 \<and> length (w_flows w') = 2" by simp
  with a show "\<exists>r w'. Task_call world_T 0 [PInt 5] None [] = Inr (r, w') \<and> tr_flow r = 0
         \<and> length (w_flows w') = 2"
    by blast
next
  have c: "c_flow (ctx world_T_alone) = None" and l: "length (w_flows world_T_alone) = 1"
    by (simp_all add: world_T_alone_def world_T_def empty_context_def)
  have f: "fst (Flow_new world_T_alone) = 1"
    by (simp add: Flow_new_def world_T_alone_def world_T_def)
  have sg: "run_signature (t_cls (w_tasks world_T_alone ! 0)) = sig_a_b"
    by (simp add: world_T_alone_def world_T_def new_object_def)
  have hs: "hashable_signature sig_a_b"
    by (simp add: hashable_signature_def sig_a_b_def)
  have ca: "Task_callargs (run_signature (t_cls (w_tasks world_T_alone ! 0))) [PInt 5] []
              = Inr [(KStr ''a'', PInt 5)]"
    unfolding sg Task_callargs_hashable [OF hs]
    by (simp add: sig_a_b_def bind_def bind_rest_def keys_def)
  have na: "\<not> named_again []" by (simp add: named_again_def keys_def)
  have d: "dependency_edges 0 None None (Some (keyword_results_of [(KStr ''a'', PInt 5)])) = []"
    by (simp add: dependency_edges_def iterable_def)
  note n = flow_resolution [of world_T_alone 0 None None None None True "[PInt 5]" "[]",
      THEN conjunct2, THEN conjunct2, THEN conjunct2, THEN conjunct2, THEN conjunct2,
      THEN conjunct2, THEN conjunct2, THEN mp, OF c, THEN conjunct2, THEN conjunct2,
      THEN spec, THEN mp, OF conjI, OF na ca]
  have "flow_valid world_T_alone (add_edges \<lparr>f_tasks = [0], f_edges = []\<rparr>
           (dependency_edges 0 None None (Some (keyword_results_of [(KStr ''a'', PInt 5)]))))"
    unfolding d by (simp add: add_edges_def flow_valid_single)
  with n [THEN conjunct1] obtain r w' where
    a: "Task_call world_T_alone 0 [PInt 5] None [] = Inr (r, w')"
    by blast
  from n [THEN conjunct2, THEN spec, THEN spec, THEN mp, OF a]
  have 1: "tr_flow r = 1 \<and> w_flows w' ! 1 = \<lparr>f_tasks = [0], f_edges = []\<rparr>"
    unfolding d f by (auto simp: add_edges_def)
  from flow_resolution [of world_T_alone 0 None None None None True "[PInt 5]" "[]",
      THEN conjunct2, THEN conjunct1, THEN spec, THEN spec, THEN mp, OF a] l
  have 2: "length (w_flows w') = 2" by simp
  from a 1 2 show "\<exists>r w'. Task_call world_T_alone 0 [PInt 5] None [] = Inr (r, w')
         \<and> tr_flow r = 1 \<and> w_flows w' ! 1 = \<lparr>f_tasks = [0], f_edges = []\<rparr>
         \<and> length (w_flows w') = 2"
    by blast
qed

text \<open>
  Claim C7. Constructing a \<^verbatim>\<open>TaskResult\<close> registers the task in the given flow (in a
  new flow when none is given) before the constructor returns. Invoking the same task twice
  under one ambient flow gives two distinct results for that task in that flow; the task is
  a node after the first invocation, the second leaves the nodes as they are, and the
  number of times the task stands among the nodes grows by at most one.
\<close>

theorem TaskResult_registers:
  "(\<forall>f r w'. TaskResult_init w task (Some f) = (r, w') \<and> f < length (w_flows w) \<longrightarrow>
        tr_task r = task \<and> tr_flow r = f \<and> task \<in> set (f_tasks (w_flows w' ! f)))
   \<and> (\<forall>r w'. TaskResult_init w task None = (r, w') \<longrightarrow>
        tr_task r = task \<and> tr_flow r = fst (Flow_new w) \<and> f_tasks (w_flows w' ! tr_flow r) = [task])
   \<and> (\<forall>f r1 w1 r2 w2.
        c_flow (ctx w) = Some f \<and> f < length (w_flows w)
        \<and> Task_call w task args1 ups1 kwargs1 = Inr (r1, w1)
        \<and> Task_call w1 task args2 ups2 kwargs2 = Inr (r2, w2) \<longrightarrow>
          tr_id r1 \<noteq> tr_id r2
        \<and> tr_task r1 = task \<and> tr_task r2 = task \<and> tr_flow r1 = f \<and> tr_flow r2 = f
        \<and> task \<in> set (f_tasks (w_flows w1 ! f))
        \<and> f_tasks (w_flows w2 ! f) = f_tasks (w_flows w1 ! f)
        \<and> count_list (f_tasks (w_flows w2 ! f)) task
             \<le> Suc (count_list (f_tasks (w_flows w ! f)) task))"
proof (intro conjI allI impI)
  fix f r w'
  assume a: "TaskResult_init w task (Some f) = (r, w') \<and> f < length (w_flows w)"
  then show "tr_task r = task" "tr_flow r = f" "task \<in> set (f_tasks (w_flows w' ! f))"
    by (auto simp: TaskResult_init_Some add_task_member)
next
  fix r w'
  assume a: "TaskResult_init w task None = (r, w')"
  then show "tr_task r = task" "tr_flow r = fst (Flow_new w)" "f_tasks (w_flows w' ! tr_flow r) = [task]"
    by (auto simp: TaskResult_init_None add_task_def)
next
  fix f r1 w1 r2 w2
  assume a: "c_flow (ctx w) = Some f \<and> f < length (w_flows w)
        \<and> Task_call w task args1 ups1 kwargs1 = Inr (r1, w1)
        \<and> Task_call w1 task args2 ups2 kwargs2 = Inr (r2, w2)"
  then have cf: "c_flow (ctx w) = Some f" and fl: "f < length (w_flows w)"
    and c1: "Task_call w task args1 ups1 kwargs1 = Inr (r1, w1)"
    and c2: "Task_call w1 task args2 ups2 kwargs2 = Inr (r2, w2)"
    by simp_all
  have v: "ambient_flow_valid w" using cf fl by (simp add: ambient_flow_valid_def)
  have rf: "resolved_flow w = f" using cf by (simp add: resolved_flow_def)
  note r1 = Task_call_result [OF c1 v]
  have cf1: "c_flow (ctx w1) = Some f" using r1(2) cf by simp
  have v1: "ambient_flow_valid w1" using cf1 fl r1(6) by (simp add: ambient_flow_valid_def)
  have rf1: "resolved_flow w1 = f" using cf1 by (simp add: resolved_flow_def)
  note r2 = Task_call_result [OF c2 v1]
  have t1: "f_tasks (w_flows w1 ! f) = f_tasks (add_task (w_flows w ! f) task)"
    using r1(7) cf by (auto simp: rf ambient_flow_def)
  have t2: "f_tasks (w_flows w2 ! f) = f_tasks (add_task (w_flows w1 ! f) task)"
    using r2(7) cf1 by (auto simp: rf1 ambient_flow_def)
  show "tr_id r1 \<noteq> tr_id r2" using r1(1,5) r2(1) by simp
  show "tr_task r1 = task" "tr_task r2 = task" "tr_flow r1 = f" "tr_flow r2 = f"
    using r1(1) r2(1) rf rf1 by simp_all
  show m: "task \<in> set (f_tasks (w_flows w1 ! f))"
    unfolding t1 by (rule add_task_member)
  show e: "f_tasks (w_flows w2 ! f) = f_tasks (w_flows w1 ! f)"
    unfolding t2 using m by (simp add: add_task_present)
  show "count_list (f_tasks (w_flows w2 ! f)) task \<le> Suc (count_list (f_tasks (w_flows w ! f)) task)"
    unfolding e t1 by (rule add_task_count)
qed

text \<open>
  The theorem at the task \<open>T\<close> and an ambient flow that does not hold it yet: \<^verbatim>\<open>T(1)\<close>
  and \<^verbatim>\<open>T(2)\<close> return distinct results in flow 0, where \<open>T\<close> stands once.
\<close>

theorem TaskResult_registers_witness:
  "(\<exists>r w'. TaskResult_init world_T_new 0 (Some 0) = (r, w') \<and> 0 \<in> set (f_tasks (w_flows w' ! 0)))
   \<and> (\<exists>r1 w1 r2 w2.
         Task_call world_T_new 0 [PInt 1] None [] = Inr (r1, w1)
       \<and> Task_call w1 0 [PInt 2] None [] = Inr (r2, w2)
       \<and> tr_id r1 \<noteq> tr_id r2 \<and> tr_flow r1 = 0 \<and> tr_flow r2 = 0
       \<and> f_tasks (w_flows world_T_new ! 0) = []
       \<and> count_list (f_tasks (w_flows w2 ! 0)) 0 \<le> 1)"
proof (intro conjI)
  note t = TaskResult_registers [of world_T_new 0 "[PInt 1]" None "[]" "[PInt 2]" None "[]"]
  obtain r w' where i: "TaskResult_init world_T_new 0 (Some 0) = (r, w')"
    by (cases "TaskResult_init world_T_new 0 (Some 0)") auto
  have l: "0 < length (w_flows world_T_new)" by (simp add: world_T_new_def)
  from t [THEN conjunct1, THEN spec, THEN spec, THEN spec, THEN mp, OF conjI, OF i l] i
  show "\<exists>r w'. TaskResult_init world_T_new 0 (Some 0) = (r, w') \<and> 0 \<in> set (f_tasks (w_flows w' ! 0))"
    by blast
next
  note t = TaskResult_registers [of world_T_new 0 "[PInt 1]" None "[]" "[PInt 2]" None "[]"]
  have cf: "c_flow (ctx world_T_new) = Some 0" and l: "0 < length (w_flows world_T_new)"
    and tk: "w_tasks world_T_new = w_tasks world_T"
    and f0: "w_flows world_T_new ! 0 = \<lparr>f_tasks = [], f_edges = []\<rparr>"
    by (simp_all add: world_T_new_def world_T_def empty_context_def)
  have v: "ambient_flow_valid world_T_new"
    using cf l by (simp add: ambient_flow_valid_def)
  have af: "ambient_flow world_T_new = \<lparr>f_tasks = [], f_edges = []\<rparr>"
    using cf f0 by (simp add: ambient_flow_def)
  have sg: "run_signature (t_cls (w_tasks world_T_new ! 0)) = sig_a_b"
    by (simp add: tk world_T_def new_object_def)
  have b1: "bind (run_signature (t_cls (w_tasks world_T_new ! 0))) [PInt 1] [] = Inr [(''a'', PInt 1)]"
    unfolding sg by (simp add: sig_a_b_def bind_def bind_rest_def keys_def)
  have b2: "bind sig_a_b [PInt 2] [] = Inr [(''a'', PInt 2)]"
    by (simp add: sig_a_b_def bind_def bind_rest_def keys_def)
  have ne: "dependency_edges 0 None None (Some [(''a'', PInt n)]) = []" for n
    by (simp add: dependency_edges_def iterable_def)
  have ok1: "flow_valid world_T_new (add_edges (add_task (ambient_flow world_T_new) 0)
           (dependency_edges 0 None None (Some [(''a'', PInt 1)])))"
    unfolding af ne by (simp add: add_edges_def add_task_def flow_valid_single)
  have na: "\<not> named_again []" by (simp add: named_again_def keys_def)
  have hs: "hashable_signature (run_signature (t_cls (w_tasks world_T_new ! 0)))"
    unfolding sg by (simp add: hashable_signature_def sig_a_b_def)
  from Task_call_succeeds [OF b1 v ok1 na hs] obtain r1 w1 where
    c1: "Task_call world_T_new 0 [PInt 1] None [] = Inr (r1, w1)"
    by blast
  note r1 = Task_call_result [OF c1 v]
  have rf: "resolved_flow world_T_new = 0" using cf by (simp add: resolved_flow_def)
  have f1: "w_flows w1 ! 0 = \<lparr>f_tasks = [0], f_edges = []\<rparr>"
    using r1(7) b1 unfolding rf af by (simp add: ne add_edges_def add_task_def)
  have cf1: "c_flow (ctx w1) = Some 0" using r1(2) cf by simp
  have v1: "ambient_flow_valid w1" using cf1 r1(6) by (simp add: ambient_flow_valid_def)
  have af1: "ambient_flow w1 = \<lparr>f_tasks = [0], f_edges = []\<rparr>"
    using cf1 f1 by (simp add: ambient_flow_def)
  have sg1: "run_signature (t_cls (w_tasks w1 ! 0)) = sig_a_b"
    using sg r1(3) by simp
  have ok2: "flow_valid w1 (add_edges (add_task (ambient_flow w1) 0)
           (dependency_edges 0 None None (Some [(''a'', PInt 2)])))"
    unfolding af1 ne by (simp add: add_edges_def add_task_def flow_valid_single)
  have hs1: "hashable_signature sig_a_b"
    by (simp add: hashable_signature_def sig_a_b_def)
  from Task_call_succeeds [of w1 0 "[PInt 2]" "[]", unfolded sg1, OF b2 v1 ok2 na hs1]
  obtain r2 w2 where
    c2: "Task_call w1 0 [PInt 2] None [] = Inr (r2, w2)"
    by blast
  from t [THEN conjunct2, THEN conjunct2, THEN spec, THEN spec, THEN spec, THEN spec, THEN spec,
      THEN mp, of 0 r1 w1 r2 w2] cf l c1 c2
  have "tr_id r1 \<noteq> tr_id r2 \<and> tr_flow r1 = 0 \<and> tr_flow r2 = 0
      \<and> count_list (f_tasks (w_flows w2 ! 0)) 0 \<le> Suc (count_list (f_tasks (w_flows world_T_new ! 0)) 0)"
    by blast
  then show "\<exists>r1 w1 r2 w2.
         Task_call world_T_new 0 [PInt 1] None [] = Inr (r1, w1)
       \<and> Task_call w1 0 [PInt 2] None [] = Inr (r2, w2)
       \<and> tr_id r1 \<noteq> tr_id r2 \<and> tr_flow r1 = 0 \<and> tr_flow r2 = 0
       \<and> f_tasks (w_flows world_T_new ! 0) = []
       \<and> count_list (f_tasks (w_flows w2 ! 0)) 0 \<le> 1"
    using c1 c2 f0 by (intro exI [of _ r1] exI [of _ w1] exI [of _ r2] exI [of _ w2]) simp
qed

section \<open>The claims about index access\<close>

lemma item_name_nonempty: "item_name n i \<noteq> []"
  by (simp add: item_name_def)

lemma bind_task_result:
  "bind (run_signature GetItemClass) [] [(''task_result'', v)] = Inr [(''task_result'', v)]"
  by (simp add: bind_def bind_rest_def keys_def)

lemma TaskResult_getitem_result:
  assumes g: "TaskResult_getitem w r i = Inr (r', w')" and v: "ambient_flow_valid w"
  shows "\<exists>n. getattr_name (w_tasks w ! tr_task r) = Inr n
           \<and> getattr_name (w_tasks w' ! tr_task r') = Inr (item_name n i)"
    and "tr_task r' = length (w_tasks w)"
    and "length (w_tasks w') = Suc (length (w_tasks w))"
    and "t_cls (w_tasks w' ! tr_task r') = GetItemClass"
    and "t_index (w_tasks w' ! tr_task r') = Some i"
    and "tr_flow r' = resolved_flow w"
    and "item_edge r r' \<in> set (f_edges (w_flows w' ! tr_flow r'))"
    and "tr_task r' \<in> set (f_tasks (w_flows w' ! tr_flow r'))"
    and "f < length (w_flows w) \<Longrightarrow> f \<noteq> resolved_flow w \<Longrightarrow> w_flows w' ! f = w_flows w ! f"
proof -
  from g obtain n where n: "getattr_name (w_tasks w ! tr_task r) = Inr n"
    by (auto simp: TaskResult_getitem_def split: sum.splits)
  from g n obtain t w1 where
    gi: "GetItem_init w i (item_name n i) = Inr (t, w1)"
    and c: "Task_call w1 t [] None [(''task_result'', PTaskResult r)] = Inr (r', w')"
    by (auto simp: TaskResult_getitem_def item_name_def split: sum.splits)
  let ?self = "(new_object GetItemClass)\<lparr>t_index := Some i\<rparr>"
  have ti: "Task_init w ?self (Some (item_name n i)) None None None NoTags 0 60 None None False None False
              = Inr (t, w1)"
    using gi by (simp add: GetItem_init_def Let_def)
  from Task_init_unfold [OF ti] have t: "t = length (w_tasks w)" and cx: "ctx w1 = ctx w"
    and fl: "w_flows w1 = (case c_flow (ctx w) of None \<Rightarrow> w_flows w
              | Some f \<Rightarrow> (w_flows w)[f := add_task (w_flows w ! f) t])"
    by blast+
  from Task_init_task [OF ti] obtain obj where obj: "w_tasks w1 = w_tasks w @ [obj]"
    "t_cls obj = GetItemClass" "t_index obj = Some i"
    "t_name obj = Some (str_or (Some (item_name n i)) ''GetItem'')"
    by (auto simp: new_object_def)
  have nm: "t_name obj = Some (item_name n i)"
    using obj(4) item_name_nonempty [of n i] by (simp add: str_or_def)
  have nth: "w_tasks w1 ! t = obj" by (simp add: obj(1) t)
  have len: "length (w_flows w1) = length (w_flows w)"
    unfolding fl by (simp split: option.splits)
  have v1: "ambient_flow_valid w1"
    using v by (simp add: ambient_flow_valid_def cx len split: option.splits)
  have rf: "resolved_flow w1 = resolved_flow w"
    by (simp add: resolved_flow_def cx len split: option.splits)
  note res = Task_call_result [OF c v1]
  have r': "tr_task r' = t" "tr_flow r' = resolved_flow w"
    using res(1) rf by simp_all
  show "tr_task r' = length (w_tasks w)" using r'(1) t by simp
  show "length (w_tasks w') = Suc (length (w_tasks w))" using res(3) obj(1) by simp
  have nth': "w_tasks w' ! tr_task r' = obj" using res(3) nth r'(1) by simp
  show "t_cls (w_tasks w' ! tr_task r') = GetItemClass" unfolding nth' by (rule obj(2))
  show "t_index (w_tasks w' ! tr_task r') = Some i" unfolding nth' by (rule obj(3))
  have "getattr_name (w_tasks w' ! tr_task r') = Inr (item_name n i)"
    unfolding nth' using obj(2) nm by (simp add: getattr_name_def)
  with n show "\<exists>n. getattr_name (w_tasks w ! tr_task r) = Inr n
           \<and> getattr_name (w_tasks w' ! tr_task r') = Inr (item_name n i)"
    by blast
  show "tr_flow r' = resolved_flow w" by (rule r'(2))
  have sg: "run_signature (t_cls (w_tasks w1 ! t)) = run_signature GetItemClass"
    using nth obj(2) by simp
  from res(7) obtain a where
    a: "bind (run_signature (t_cls (w_tasks w1 ! t))) [] [(''task_result'', PTaskResult r)] = Inr a"
    and fw: "w_flows w' ! resolved_flow w1
               = add_edges (add_task (ambient_flow w1) t) (dependency_edges t None None (Some a))"
    by blast
  have a': "a = [(''task_result'', PTaskResult r)]"
    using a unfolding sg bind_task_result by simp
  have de: "dependency_edges t None None (Some a) = [item_edge r r']"
    unfolding a' by (simp add: dependency_edges_def iterable_def item_edge_def r'(1))
  show "item_edge r r' \<in> set (f_edges (w_flows w' ! tr_flow r'))"
    unfolding r'(2) rf [symmetric] fw de by (simp add: add_edges_edges)
  show "tr_task r' \<in> set (f_tasks (w_flows w' ! tr_flow r'))"
    unfolding r'(2) rf [symmetric] fw r'(1) by (simp add: add_task_member)
  show "w_flows w' ! f = w_flows w ! f" if "f < length (w_flows w)" "f \<noteq> resolved_flow w" for f
  proof -
    have "w_flows w' ! f = w_flows w1 ! f"
      using res(8) [of f] that len rf by simp
    also have "\<dots> = w_flows w ! f"
      using that(2) unfolding fl by (auto simp: resolved_flow_def split: option.splits)
    finally show ?thesis .
  qed
qed

lemma str_index_2: "str_index (IntIndex 2) = ''2''"
  by code_simp

lemma bind_task_result_sig:
  "bind [\<lparr>p_name = ''task_result'', p_kind = POSITIONAL_OR_KEYWORD, p_default = None,
           p_annotation = None\<rparr>] []
     [(''task_result'', v)] = Inr [(''task_result'', v)]"
  using bind_task_result by simp

lemma Task_callargs_task_result:
  "Task_callargs [\<lparr>p_name = ''task_result'', p_kind = POSITIONAL_OR_KEYWORD, p_default = None,
           p_annotation = None\<rparr>] []
     [(''task_result'', v)] = Inr [(KStr ''task_result'', v)]"
  by (simp add: Task_callargs_eq bind_task_result_sig hashable_signature_def)

lemma not_named_again_task_result: "\<not> named_again [(''task_result'', v)]"
  by (simp add: named_again_def keys_def)


lemma getitem_two: "\<exists>r' w'. TaskResult_getitem world_two_flows result_T (IntIndex 2) = Inr (r', w')"
  by (simp add: TaskResult_getitem_def GetItem_init_def Task_init_def
        Task_call_eq [OF not_named_again_task_result] Task_callargs_task_result
        Flow_set_dependencies_def TaskResult_init_Some Let_def
        resolved_flow_def dependency_edges_def iterable_def add_edges_def add_edge_def add_task_def
        flow_valid_def has_cycle_def slugs_def getattr_slug_def getattr_name_def
        setattr_name_def setattr_slug_def str_or_def context_get_def
        world_two_flows_def world_T_def result_T_def empty_context_def new_object_def Flow_new_def str_index_2)



text \<open>
  Claim C10. The flow of \<^verbatim>\<open>r[index]\<close> is the ambient flow of the context, or a newly
  constructed flow when there is none, and not the flow of \<open>r\<close>: with no ambient flow it
  always differs from the flow of \<open>r\<close>, and whenever it differs, the derived task and its
  edge are in that flow and the flow of \<open>r\<close> is left as it was.
\<close>

theorem TaskResult_getitem_flow:
  "TaskResult_getitem w r i = Inr (r', w') \<Longrightarrow> ambient_flow_valid w \<Longrightarrow>
   tr_flow r < length (w_flows w) \<Longrightarrow>
     tr_flow r' = (case c_flow (ctx w) of Some g \<Rightarrow> g | None \<Rightarrow> fst (Flow_new w))
   \<and> (c_flow (ctx w) = None \<longrightarrow> tr_flow r' \<noteq> tr_flow r)
   \<and> (tr_flow r' \<noteq> tr_flow r \<longrightarrow>
          tr_task r' \<in> set (f_tasks (w_flows w' ! tr_flow r'))
        \<and> \<lparr>upstream_task = tr_task r, downstream_task = tr_task r', key = Some ''task_result''\<rparr>
             \<in> set (f_edges (w_flows w' ! tr_flow r'))
        \<and> w_flows w' ! tr_flow r = w_flows w ! tr_flow r)"
proof -
  assume g: "TaskResult_getitem w r i = Inr (r', w')" and v: "ambient_flow_valid w"
    and l: "tr_flow r < length (w_flows w)"
  note res = TaskResult_getitem_result [OF g v]
  have a: "tr_flow r' = (case c_flow (ctx w) of Some g \<Rightarrow> g | None \<Rightarrow> fst (Flow_new w))"
    using res(6) by (simp add: resolved_flow_def split: option.splits)
  have b: "c_flow (ctx w) = None \<longrightarrow> tr_flow r' \<noteq> tr_flow r"
    using a l by auto
  have c: "w_flows w' ! tr_flow r = w_flows w ! tr_flow r" if "tr_flow r' \<noteq> tr_flow r"
    using res(9) [OF l] that res(6) by simp
  show ?thesis
    using a b c res(7) [unfolded item_edge_def] res(8) by blast
qed

text \<open>
  The theorem at the result of \<open>T\<close> in flow 0 under the ambient flow 1: the derived
  task and the edge are in flow 1, and flow 0 still holds \<open>T\<close> alone.
\<close>

theorem TaskResult_getitem_flow_witness:
  "ambient_flow_valid world_two_flows
   \<and> tr_flow result_T < length (w_flows world_two_flows)
   \<and> tr_flow result_T = 0
   \<and> (\<exists>r' w'. TaskResult_getitem world_two_flows result_T (IntIndex 2) = Inr (r', w')
         \<and> tr_flow r' = 1
         \<and> tr_task r' \<in> set (f_tasks (w_flows w' ! 1))
         \<and> \<lparr>upstream_task = 0, downstream_task = tr_task r', key = Some ''task_result''\<rparr>
              \<in> set (f_edges (w_flows w' ! 1))
         \<and> w_flows w' ! 0 = \<lparr>f_tasks = [0], f_edges = []\<rparr>)"
proof -
  have v: "ambient_flow_valid world_two_flows"
    by (simp add: ambient_flow_valid_def world_two_flows_def empty_context_def)
  have l: "tr_flow result_T < length (w_flows world_two_flows)" and z: "tr_flow result_T = 0"
    and k: "tr_task result_T = 0"
    by (simp_all add: world_two_flows_def result_T_def)
  have c: "c_flow (ctx world_two_flows) = Some 1"
    and f0: "w_flows world_two_flows ! 0 = \<lparr>f_tasks = [0], f_edges = []\<rparr>"
    by (simp_all add: world_two_flows_def empty_context_def)
  from getitem_two obtain r' w' where
    g: "TaskResult_getitem world_two_flows result_T (IntIndex 2) = Inr (r', w')"
    by blast
  note t = TaskResult_getitem_flow [OF g v l]
  have 1: "tr_flow r' = 1" using t [THEN conjunct1] c by simp
  then have ne: "tr_flow r' \<noteq> tr_flow result_T" using z by simp
  note u = t [THEN conjunct2, THEN conjunct2, THEN mp, OF ne]
  have 2: "tr_task r' \<in> set (f_tasks (w_flows w' ! 1))"
    using u [THEN conjunct1] 1 by simp
  have 3: "\<lparr>upstream_task = 0, downstream_task = tr_task r', key = Some ''task_result''\<rparr>
              \<in> set (f_edges (w_flows w' ! 1))"
    using u [THEN conjunct2, THEN conjunct1] 1 k by simp
  have 4: "w_flows w' ! 0 = \<lparr>f_tasks = [0], f_edges = []\<rparr>"
    using u [THEN conjunct2, THEN conjunct2] z f0 by simp
  show ?thesis using v l z g 1 2 3 4 by blast
qed

end
